theory Spec2Isabelle
  imports Complex_Main "HOL-Library.Word" "HOL-Library.Signed_Division"
begin

unbundle bit_operations_syntax

section \<open>Machine types of the hexbright library\<close>

text \<open>
  The library is Arduino code for the ATmega of the HexBright flashlight: \<open>int\<close> has
  16 bits, \<open>long\<close> and \<open>unsigned long\<close> have 32, \<open>byte\<close> has 8. Arithmetic on them
  wraps around; \<open>sint\<close> reads a signed value.
\<close>

type_synonym int16 = "16 word"
type_synonym long32 = "32 word"
type_synonym byte = "8 word"

text \<open>C's \<open>/\<close> and \<open>%\<close> on signed integers truncate towards zero. Division by zero is
  undefined in C; here it yields 0 (and the dividend as remainder), and every statement
  that divides by \<open>ms_delay\<close> assumes it is not zero.\<close>

definition c_div :: "'a::len word \<Rightarrow> 'a word \<Rightarrow> 'a word" where
  "c_div a b = word_of_int (sint a sdiv sint b)"

definition c_mod :: "'a::len word \<Rightarrow> 'a word \<Rightarrow> 'a word" where
  "c_mod a b = word_of_int (sint a smod sint b)"

text \<open>Arduino's \<open>min\<close> macro on \<open>int\<close>: \<open>((a)<(b)?(a):(b))\<close>.\<close>

definition c_min :: "int16 \<Rightarrow> int16 \<Rightarrow> int16" where
  "c_min a b = (if a <s b then a else b)"

section \<open>Floating point\<close>

text \<open>
  A \<open>float\<close> (and, with avr-gcc, a \<open>double\<close>) is an IEEE 754 single: a value that is
  finite is a real number with a 24-bit significand; \<open>None\<close> stands for a value that is
  not a finite number (NaN or an infinity). Every operation rounds its exact result to
  the nearest single, ties to even. Signed zeros are not distinguished.
\<close>

type_synonym float = "real option"

text \<open>\<open>flog2 x\<close> is the exponent of a positive \<open>x\<close>: \<open>2^e \<le> x < 2^(e+1)\<close>.\<close>

function flog2 :: "real \<Rightarrow> int" where
  "flog2 x = (if x \<le> 0 then 0
              else if 2 \<le> x then flog2 (x / 2) + 1
              else if x < 1 then flog2 (x * 2) - 1
              else 0)"
  by pat_completeness auto
termination
proof (relation "measure (\<lambda>x. 2 * nat \<lceil>1 / x\<rceil> + nat \<lfloor>x\<rfloor>)")
  show "wf (measure (\<lambda>x::real. 2 * nat \<lceil>1 / x\<rceil> + nat \<lfloor>x\<rfloor>))" by simp
next
  fix x :: real
  assume a: "\<not> x \<le> 0" "2 \<le> x"
  have f: "\<lfloor>x / 2\<rfloor> < \<lfloor>x\<rfloor>" using a by linarith
  have "1 / x \<le> 1" "0 < 1 / x" "2 / x \<le> 1" "0 < 2 / x" using a by (simp_all)
  then have c: "\<lceil>1 / x\<rceil> = 1" "\<lceil>2 / x\<rceil> = 1" by (simp_all add: ceiling_eq_iff)
  have "0 \<le> \<lfloor>x / 2\<rfloor>" using a by simp
  then show "(x / 2, x) \<in> measure (\<lambda>x. 2 * nat \<lceil>1 / x\<rceil> + nat \<lfloor>x\<rfloor>)"
    using f c a by simp
next
  fix x :: real
  assume a: "\<not> x \<le> 0" "\<not> 2 \<le> x" "x < 1"
  have fx: "\<lfloor>x\<rfloor> = 0" using a by (simp add: floor_eq_iff)
  have f2: "\<lfloor>x * 2\<rfloor> \<le> 1" "0 \<le> \<lfloor>x * 2\<rfloor>" using a by (simp_all add: floor_le_iff le_floor_iff)
  have "1 < 1 / x" using a by simp
  then have c1: "2 \<le> \<lceil>1 / x\<rceil>" by linarith
  have "1 / (x * 2) = (1 / x) / 2" by simp
  then have c2: "2 * \<lceil>1 / (x * 2)\<rceil> \<le> \<lceil>1 / x\<rceil> + 1" by linarith
  have "2 * \<lceil>1 / (x * 2)\<rceil> + \<lfloor>x * 2\<rfloor> < 2 * \<lceil>1 / x\<rceil>"
  proof (cases "x < 1 / 2")
    case True
    then have "\<lfloor>x * 2\<rfloor> = 0" using a by (simp add: floor_eq_iff)
    then show ?thesis using c1 c2 by linarith
  next
    case False
    then have "\<lceil>1 / x\<rceil> = 2" using a by (simp add: ceiling_eq_iff field_simps)
    moreover have "\<lceil>1 / (x * 2)\<rceil> = 1" using a False by (simp add: ceiling_eq_iff field_simps)
    ultimately show ?thesis using f2 by simp
  qed
  moreover have "0 < \<lceil>1 / (x * 2)\<rceil>" using a by simp
  ultimately show "(x * 2, x) \<in> measure (\<lambda>x. 2 * nat \<lceil>1 / x\<rceil> + nat \<lfloor>x\<rfloor>)"
    using fx f2 c1 unfolding in_measure by arith
qed

declare flog2.simps [simp del]

text \<open>Round to the nearest integer, ties to even.\<close>

definition rne :: "real \<Rightarrow> int" where
  "rne y = (let f = \<lfloor>y\<rfloor>; r = y - of_int f
            in if r < 1/2 then f else if 1/2 < r then f + 1 else if even f then f else f + 1)"

text \<open>The unit in the last place of the singles around \<open>x\<close>: 24 significant bits, and
  \<open>2^-149\<close> for the subnormal numbers.\<close>

definition ulp_exp :: "real \<Rightarrow> int" where
  "ulp_exp x = max (flog2 \<bar>x\<bar> - 23) (- 149)"

definition round32 :: "real \<Rightarrow> real" where
  "round32 x = (let u = 2 powi ulp_exp x in of_int (rne (x / u)) * u)"

text \<open>The single nearest to an exact result; a result too large for a single is an
  infinity.\<close>

definition fl :: "real \<Rightarrow> float" where
  "fl x = (let r = round32 x in if \<bar>r\<bar> < 2 ^ 128 then Some r else None)"

text \<open>The arithmetic operators. A NaN operand gives NaN; a division by zero gives NaN or
  an infinity. An infinity is not told from NaN here: the only infinities the functions
  below can produce are quotients by zero, and each of them is then multiplied by zero,
  passed to \<open>acos\<close>, divided by NaN, stored, or converted to \<open>int\<close>, all of which give
  the same with NaN in its place.\<close>

definition fadd :: "float \<Rightarrow> float \<Rightarrow> float" where
  "fadd a b = (case (a, b) of (Some x, Some y) \<Rightarrow> fl (x + y) | _ \<Rightarrow> None)"

definition fsub :: "float \<Rightarrow> float \<Rightarrow> float" where
  "fsub a b = (case (a, b) of (Some x, Some y) \<Rightarrow> fl (x - y) | _ \<Rightarrow> None)"

definition fmul :: "float \<Rightarrow> float \<Rightarrow> float" where
  "fmul a b = (case (a, b) of (Some x, Some y) \<Rightarrow> fl (x * y) | _ \<Rightarrow> None)"

definition fdiv :: "float \<Rightarrow> float \<Rightarrow> float" where
  "fdiv a b = (case (a, b) of
                 (Some x, Some y) \<Rightarrow> if y = 0 then None else fl (x / y)
               | _ \<Rightarrow> None)"

definition fneg :: "float \<Rightarrow> float" where
  "fneg a = map_option uminus a"

text \<open>A comparison with NaN is false.\<close>

definition fgt :: "float \<Rightarrow> float \<Rightarrow> bool" where
  "fgt a b = (case (a, b) of (Some x, Some y) \<Rightarrow> y < x | _ \<Rightarrow> False)"

definition flt :: "float \<Rightarrow> float \<Rightarrow> bool" where
  "flt a b = (case (a, b) of (Some x, Some y) \<Rightarrow> x < y | _ \<Rightarrow> False)"

text \<open>Arduino's \<open>abs\<close> macro: \<open>((x)>0?(x):-(x))\<close>.\<close>

definition c_abs :: "float \<Rightarrow> float" where
  "c_abs a = (if fgt a (Some 0) then a else fneg a)"

text \<open>Conversions. An integer becomes the nearest single. A floating value becomes an
  \<open>int\<close> by dropping its fraction; the conversion of NaN, of an infinity or of a value
  outside the range of \<open>int\<close> is undefined in C: \<open>None\<close>.\<close>

definition i2f :: "'a::len word \<Rightarrow> float" where
  "i2f w = fl (of_int (sint w))"

definition u2f :: "'a::len word \<Rightarrow> float" where
  "u2f w = fl (of_int (uint w))"

definition lit :: "real \<Rightarrow> float" where
  "lit x = fl x"

definition f2i :: "float \<Rightarrow> int16 option" where
  "f2i a = (case a of
              None \<Rightarrow> None
            | Some x \<Rightarrow>
                (let t = (if 0 \<le> x then \<lfloor>x\<rfloor> else \<lceil>x\<rceil>)
                 in if - 32768 \<le> t \<and> t \<le> 32767 then Some (word_of_int t) else None))"

text \<open>The functions of the C library, taken at their correctly rounded values; outside
  its domain each of them returns NaN.\<close>

definition f_sqrt :: "float \<Rightarrow> float" where
  "f_sqrt a = (case a of Some x \<Rightarrow> if x < 0 then None else fl (sqrt x) | None \<Rightarrow> None)"

definition f_acos :: "float \<Rightarrow> float" where
  "f_acos a = (case a of Some x \<Rightarrow> if \<bar>x\<bar> \<le> 1 then fl (arccos x) else None | None \<Rightarrow> None)"

definition f_asin :: "float \<Rightarrow> float" where
  "f_asin a = (case a of Some x \<Rightarrow> if \<bar>x\<bar> \<le> 1 then fl (arcsin x) else None | None \<Rightarrow> None)"

section \<open>The state of the library\<close>

text \<open>What the library writes to the pins, in the order of the calls.\<close>

datatype hw_event =
  PinMode nat nat
| DigitalWrite nat bool
| AnalogWrite nat int16

text \<open>The pin a call addresses.\<close>

fun pin :: "hw_event \<Rightarrow> nat" where
  "pin (PinMode p m) = p"
| "pin (DigitalWrite p v) = p"
| "pin (AnalogWrite p v) = p"

abbreviation (input) DPIN_RLED_SW :: nat where "DPIN_RLED_SW \<equiv> 2"
abbreviation (input) DPIN_GLED :: nat where "DPIN_GLED \<equiv> 5"
abbreviation (input) DPIN_PWR :: nat where "DPIN_PWR \<equiv> 8"
abbreviation (input) DPIN_DRV_MODE :: nat where "DPIN_DRV_MODE \<equiv> 9"
abbreviation (input) DPIN_DRV_EN :: nat where "DPIN_DRV_EN \<equiv> 10"

abbreviation (input) INPUT :: nat where "INPUT \<equiv> 0"
abbreviation (input) OUTPUT :: nat where "OUTPUT \<equiv> 1"
abbreviation (input) LOW :: bool where "LOW \<equiv> False"
abbreviation (input) HIGH :: bool where "HIGH \<equiv> True"

abbreviation (input) OVERHEAT_TEMPERATURE :: int16 where "OVERHEAT_TEMPERATURE \<equiv> 320"
abbreviation (input) MAX_LEVEL :: int16 where "MAX_LEVEL \<equiv> 1000"
abbreviation (input) CURRENT_LEVEL :: int16 where "CURRENT_LEVEL \<equiv> - 1"

abbreviation (input) RLED :: byte where "RLED \<equiv> 0"
abbreviation (input) GLED :: byte where "GLED \<equiv> 1"

abbreviation (input) LED_OFF :: byte where "LED_OFF \<equiv> 0"
abbreviation (input) LED_WAIT :: byte where "LED_WAIT \<equiv> 1"
abbreviation (input) LED_ON :: byte where "LED_ON \<equiv> 2"

abbreviation (input) CHARGING :: byte where "CHARGING \<equiv> 1"
abbreviation (input) BATTERY :: byte where "BATTERY \<equiv> 7"
abbreviation (input) CHARGED :: byte where "CHARGED \<equiv> 3"

text \<open>The global variables of hexbright.cpp. The two accelerometer vectors share the
  array \<open>vectors\<close>; \<open>new_vector\<close> and \<open>old_vector\<close> are the offsets (0 or 3) the two
  pointers hold. \<open>number\<close> and \<open>color\<close> are \<open>_number\<close> and \<open>_color\<close>.\<close>

record hexbright =
  ms_delay :: int16
  start_light_level :: int16
  end_light_level :: int16
  change_duration :: int16
  change_done :: int16
  safe_light_level :: int16
  led_wait_time :: "int16 list"
  led_on_time :: "int16 list"
  led_brightness :: "byte list"
  time_held :: int16
  released :: bool
  vectors :: "float list"
  new_vector :: nat
  old_vector :: nat
  down :: "float list"
  old_magnitude :: float
  new_magnitude :: float
  dp :: float
  angle_change :: float
  axes_rotation :: "float list"
  number :: long32
  color :: byte
  print_wait_time :: int16
  thermal_sensor_value :: int16
  hw :: "hw_event list"

text \<open>The initial values of the globals, after the constructor has set \<open>ms_delay\<close>.\<close>

definition init :: "int16 \<Rightarrow> hexbright" where
  "init update_delay_ms =
     \<lparr> ms_delay = update_delay_ms,
       start_light_level = 0, end_light_level = 0, change_duration = 0, change_done = 0,
       safe_light_level = MAX_LEVEL,
       led_wait_time = [- 1, - 1], led_on_time = [- 1, - 1], led_brightness = [0, 0],
       time_held = 0, released = True,
       vectors = [Some 0, Some 0, Some 0, Some 0, Some 0, Some 0],
       new_vector = 0, old_vector = 3,
       down = [Some 0, Some 0, Some 0],
       old_magnitude = Some 0, new_magnitude = Some 0, dp = Some 0, angle_change = Some 0,
       axes_rotation = [Some 0, Some 0, Some 0],
       number = 0, color = GLED, print_wait_time = 0,
       thermal_sensor_value = 0,
       hw = [] \<rparr>"

section \<open>Light control\<close>

text \<open>\<open>get_light_level\<close>: the level the ramp asks for. The interpolation is computed in
  \<open>float\<close> and converted to \<open>int\<close>.\<close>

definition get_light_level :: "hexbright \<Rightarrow> int16 option" where
  "get_light_level s =
     (if change_duration s \<le>s change_done s then Some (end_light_level s)
      else f2i (fadd (fmul (i2f (end_light_level s - start_light_level s))
                           (fdiv (i2f (change_done s)) (i2f (change_duration s))))
                     (i2f (start_light_level s))))"

text \<open>The arithmetic of that interpolation on real arguments: the value before the
  conversion to \<open>int\<close>, for the start level \<open>l1\<close>, the end level \<open>l2\<close>, \<open>e\<close> ticks done
  of \<open>d\<close>.\<close>

definition ramp32 :: "real \<Rightarrow> real \<Rightarrow> real \<Rightarrow> real \<Rightarrow> real" where
  "ramp32 l1 l2 e d = round32 (round32 ((l2 - l1) * round32 (e / d)) + l1)"

definition get_safe_light_level :: "hexbright \<Rightarrow> int16 option" where
  "get_safe_light_level s =
     (case get_light_level s of
        None \<Rightarrow> None
      | Some light_level \<Rightarrow>
          if safe_light_level s <s light_level then Some (safe_light_level s)
          else Some light_level)"

definition set_light :: "int16 \<Rightarrow> int16 \<Rightarrow> int16 \<Rightarrow> hexbright \<Rightarrow> hexbright option" where
  "set_light start_level end_level time s =
     (if start_level = CURRENT_LEVEL then
        (case get_safe_light_level s of
           None \<Rightarrow> None
         | Some l \<Rightarrow>
             Some (s\<lparr>start_light_level := l, end_light_level := end_level,
                     change_duration := c_div time (ms_delay s), change_done := 0\<rparr>))
      else
        Some (s\<lparr>start_light_level := start_level, end_light_level := end_level,
                change_duration := c_div time (ms_delay s), change_done := 0\<rparr>))"

text \<open>The two cubics of \<open>set_light_level\<close>. \<open>level\<close> is an \<open>unsigned long\<close>; its powers
  are computed in \<open>unsigned long\<close> and then converted.\<close>

definition drive_low :: "long32 \<Rightarrow> float" where
  "drive_low level =
     fadd (fadd (fadd (fmul (lit (633 / 10 ^ 9)) (u2f (level * level * level)))
                      (fmul (lit (632 / 10 ^ 6)) (u2f (level * level))))
                (fmul (lit (285 / 10 ^ 4)) (u2f level)))
          (lit (398 / 100))"

definition drive_high :: "long32 \<Rightarrow> float" where
  "drive_high level =
     fadd (fadd (fadd (fmul (lit (52 / 10 ^ 8)) (u2f (level * level * level)))
                      (fmul (lit (365 / 10 ^ 6)) (u2f (level * level))))
                (fmul (lit (108 / 1000)) (u2f level)))
          (lit (448 / 10))"

text \<open>The pin writes of one call of \<open>set_light_level\<close>; \<open>None\<close> when the conversion of the
  drive value to \<open>int\<close> is undefined.\<close>

definition light_writes :: "long32 \<Rightarrow> hw_event list option" where
  "light_writes level =
     (if level = 0 then
        Some [PinMode DPIN_PWR OUTPUT, DigitalWrite DPIN_PWR HIGH,
              DigitalWrite DPIN_DRV_MODE LOW, AnalogWrite DPIN_DRV_EN 0]
      else if level \<le> 500 then
        map_option (\<lambda>v. [PinMode DPIN_PWR OUTPUT, DigitalWrite DPIN_PWR HIGH,
                          DigitalWrite DPIN_DRV_MODE LOW, AnalogWrite DPIN_DRV_EN v])
          (f2i (drive_low level))
      else
        map_option (\<lambda>v. [PinMode DPIN_PWR OUTPUT, DigitalWrite DPIN_PWR HIGH,
                          DigitalWrite DPIN_DRV_MODE HIGH, AnalogWrite DPIN_DRV_EN v])
          (f2i (drive_high (level - 500))))"

definition set_light_level :: "long32 \<Rightarrow> hexbright \<Rightarrow> hexbright option" where
  "set_light_level level s = map_option (\<lambda>w. s\<lparr>hw := hw s @ w\<rparr>) (light_writes level)"

text \<open>\<open>adjust_light\<close> passes an \<open>int\<close> to an \<open>unsigned long\<close> parameter: the conversion
  extends the sign.\<close>

definition adjust_light :: "hexbright \<Rightarrow> hexbright option" where
  "adjust_light s =
     (if change_done s \<le>s change_duration s then
        (case get_safe_light_level s of
           None \<Rightarrow> None
         | Some light_level \<Rightarrow>
             (case set_light_level (scast light_level) s of
                None \<Rightarrow> None
              | Some s' \<Rightarrow> Some (s'\<lparr>change_done := change_done s' + 1\<rparr>)))
      else Some s)"

text \<open>The light over \<open>n\<close> ticks: \<open>adjust_light\<close>, \<open>n\<close> times.\<close>

fun light_ticks :: "nat \<Rightarrow> hexbright \<Rightarrow> hexbright option" where
  "light_ticks 0 s = Some s"
| "light_ticks (Suc n) s = Option.bind (adjust_light s) (light_ticks n)"

text \<open>The level \<open>get_light_level\<close> reports after \<open>n\<close> ticks.\<close>

definition ramp_level :: "nat \<Rightarrow> hexbright \<Rightarrow> int16 option" where
  "ramp_level n s = Option.bind (light_ticks n s) get_light_level"

section \<open>Temperature\<close>

definition read_thermal_sensor :: "int16 \<Rightarrow> hexbright \<Rightarrow> hexbright" where
  "read_thermal_sensor analog s = s\<lparr>thermal_sensor_value := analog\<rparr>"

definition get_thermal_sensor :: "hexbright \<Rightarrow> int16" where
  "get_thermal_sensor s = thermal_sensor_value s"

definition overheat_protection :: "hexbright \<Rightarrow> hexbright" where
  "overheat_protection s =
     (let temperature = get_thermal_sensor s;
          l1 = safe_light_level s + (OVERHEAT_TEMPERATURE - temperature);
          l2 = (if MAX_LEVEL <s l1 then MAX_LEVEL else l1);
          l3 = (if l2 <s 0 then 0 else l2);
          s' = s\<lparr>safe_light_level := l3\<rparr>
      in if l3 <s MAX_LEVEL
         then s'\<lparr>change_done := c_min (change_done s') (change_duration s')\<rparr>
         else s')"

text \<open>One tick of the governor: the sensor is read, then the ceiling is updated.\<close>

definition thermal_tick :: "int16 \<Rightarrow> hexbright \<Rightarrow> hexbright" where
  "thermal_tick analog s = overheat_protection (read_thermal_sensor analog s)"

section \<open>The rear LEDs\<close>

text \<open>The arrays have two entries and are indexed by \<open>RLED\<close> or \<open>GLED\<close>.\<close>

definition set_led :: "byte \<Rightarrow> int16 \<Rightarrow> int16 \<Rightarrow> byte \<Rightarrow> hexbright \<Rightarrow> hexbright" where
  "set_led led on_time wait_time brightness s =
     s\<lparr>led_on_time := (led_on_time s)[unat led := c_div on_time (ms_delay s)],
       led_wait_time := (led_wait_time s)[unat led := c_div wait_time (ms_delay s)],
       led_brightness := (led_brightness s)[unat led := brightness]\<rparr>"

definition get_led_state :: "byte \<Rightarrow> hexbright \<Rightarrow> byte" where
  "get_led_state led s =
     (if 0 \<le>s led_on_time s ! unat led then LED_ON
      else if 0 <s led_wait_time s ! unat led then LED_WAIT
      else LED_OFF)"

definition led_on :: "byte \<Rightarrow> hexbright \<Rightarrow> hexbright" where
  "led_on led s =
     (if led = RLED then
        s\<lparr>hw := hw s @ [AnalogWrite DPIN_RLED_SW (ucast (led_brightness s ! unat RLED)),
                         PinMode DPIN_RLED_SW OUTPUT]\<rparr>
      else
        s\<lparr>hw := hw s @ [AnalogWrite DPIN_GLED (ucast (led_brightness s ! unat GLED))]\<rparr>)"

text \<open>The source passes \<open>LOW\<close> as the mode of the pin.\<close>

definition led_off :: "byte \<Rightarrow> hexbright \<Rightarrow> hexbright" where
  "led_off led s =
     (if led = RLED then
        s\<lparr>hw := hw s @ [PinMode DPIN_RLED_SW 0, DigitalWrite DPIN_RLED_SW LOW]\<rparr>
      else
        s\<lparr>hw := hw s @ [DigitalWrite DPIN_GLED LOW]\<rparr>)"

text \<open>The body of the loop of \<open>adjust_leds\<close>, for the channel \<open>i\<close>.\<close>

definition adjust_led :: "byte \<Rightarrow> hexbright \<Rightarrow> hexbright" where
  "adjust_led i s =
     (if 0 <s led_on_time s ! unat i then
        (let s' = led_on i s
         in s'\<lparr>led_on_time := (led_on_time s')[unat i := led_on_time s' ! unat i - 1]\<rparr>)
      else if led_on_time s ! unat i = 0 then
        (let s' = led_off i s
         in s'\<lparr>led_on_time := (led_on_time s')[unat i := led_on_time s' ! unat i - 1]\<rparr>)
      else if 0 \<le>s led_wait_time s ! unat i then
        s\<lparr>led_wait_time := (led_wait_time s)[unat i := led_wait_time s ! unat i - 1]\<rparr>
      else s)"

definition adjust_leds :: "hexbright \<Rightarrow> hexbright" where
  "adjust_leds s = fold adjust_led [0, 1] s"

text \<open>The pin of a channel and the calls \<open>_led_on\<close> and \<open>_led_off\<close> make on it, written
  out for the statements about the sequence of writes.\<close>

abbreviation (input) led_pin :: "byte \<Rightarrow> nat" where
  "led_pin led \<equiv> (if led = RLED then DPIN_RLED_SW else DPIN_GLED)"

abbreviation (input) on_writes :: "byte \<Rightarrow> hexbright \<Rightarrow> hw_event list" where
  "on_writes led s \<equiv>
     (if led = RLED
      then [AnalogWrite DPIN_RLED_SW (ucast (led_brightness s ! 0)), PinMode DPIN_RLED_SW OUTPUT]
      else [AnalogWrite DPIN_GLED (ucast (led_brightness s ! 1))])"

abbreviation (input) off_writes :: "byte \<Rightarrow> hw_event list" where
  "off_writes led \<equiv>
     (if led = RLED then [PinMode DPIN_RLED_SW 0, DigitalWrite DPIN_RLED_SW LOW]
      else [DigitalWrite DPIN_GLED LOW])"

section \<open>The button\<close>

definition button_released :: "hexbright \<Rightarrow> bool" where
  "button_released s = (time_held s \<noteq> 0 \<and> released s)"

definition button_held :: "hexbright \<Rightarrow> int16" where
  "button_held s = time_held s * ms_delay s"

text \<open>\<open>button_on\<close> is what \<open>digitalRead\<close> returns for the switch.\<close>

definition read_button :: "bool \<Rightarrow> hexbright \<Rightarrow> hexbright" where
  "read_button button_on s =
     (if button_on then s\<lparr>time_held := time_held s + 1, released := False\<rparr>
      else if released s \<and> time_held s \<noteq> 0 then s\<lparr>time_held := 0\<rparr>
      else s\<lparr>released := True\<rparr>)"

text \<open>The button over a run of ticks, one sample a tick.\<close>

definition button_ticks :: "bool list \<Rightarrow> hexbright \<Rightarrow> hexbright" where
  "button_ticks samples s = fold read_button samples s"

section \<open>Printing a number\<close>

text \<open>\<open>(color+1)%2\<close> is computed in \<open>int\<close>.\<close>

definition flip_color :: "byte \<Rightarrow> byte" where
  "flip_color c = ucast (c_mod (ucast c + 1 :: int16) 2)"

definition printing_number :: "hexbright \<Rightarrow> bool" where
  "printing_number s = (number s \<noteq> 0 \<or> print_wait_time s \<noteq> 0)"

definition update_number :: "hexbright \<Rightarrow> hexbright" where
  "update_number s =
     (if 0 <s number s \<and> print_wait_time s = 0 then
        (if number s = 1 then
           s\<lparr>print_wait_time := c_div 2500 (ms_delay s), number := 0\<rparr>
         else
           (let s1 = s\<lparr>print_wait_time := c_div 300 (ms_delay s)\<rparr>;
                s2 = (if c_div (number s1) 10 * 10 = number s1
                      then set_led (color s1) 400 100 255 s1
                      else (set_led (color s1) 120 100 255 s1)\<lparr>number := number s1 - 1\<rparr>);
                s3 = (if number s2 \<noteq> 0 \<and> c_mod (number s2) 10 = 0
                      then s2\<lparr>print_wait_time := c_div 600 (ms_delay s2),
                              color := flip_color (color s2),
                              number := c_div (number s2) 10\<rparr>
                      else s2)
            in if print_wait_time s3 \<noteq> 0
               then s3\<lparr>print_wait_time := print_wait_time s3 - 1\<rparr> else s3))
      else if print_wait_time s \<noteq> 0
        then s\<lparr>print_wait_time := print_wait_time s - 1\<rparr>
      else s)"

text \<open>The loop of \<open>print_number\<close> that reverses the digits.\<close>

function reverse_digits :: "long32 \<Rightarrow> long32 \<Rightarrow> byte \<Rightarrow> long32 \<times> byte" where
  "reverse_digits n acc c =
     (if 0 <s n
      then reverse_digits (c_div n 10) (acc * 10 + c_mod n 10) (flip_color c)
      else (acc, c))"
  by pat_completeness auto
termination
proof (relation "measure (\<lambda>(n, acc, c). nat (sint n))")
  show "wf (measure (\<lambda>(n :: long32, acc :: long32, c :: byte). nat (sint n)))" by simp
next
  fix n acc :: long32 and c :: byte
  assume "0 <s n"
  then have pos: "0 < sint n" by (simp add: word_sless_alt)
  have "sint n sdiv 10 = sint n div 10" using pos by (simp add: signed_divide_int_def sgn_if)
  moreover have "sint n div 10 < sint n" "0 \<le> sint n div 10" using pos by simp_all
  moreover have "sint n < 2 ^ 31" using sint_lt [of n] by simp
  ultimately have "sint (c_div n 10) = sint n div 10"
    by (simp add: c_div_def sint_sbintrunc' signed_take_bit_int_eq_self)
  then show "((c_div n 10, acc * 10 + c_mod n 10, flip_color c), n, acc, c)
      \<in> measure (\<lambda>(n, acc, c). nat (sint n))"
    using pos by simp
qed

declare reverse_digits.simps [simp del]

definition print_number :: "long32 \<Rightarrow> hexbright \<Rightarrow> hexbright" where
  "print_number n s =
     (let negative = (n <s 0);
          n1 = (if negative then 0 - n else n);
          (num, col) = reverse_digits n1 1 GLED;
          s1 = s\<lparr>color := col, number := num\<rparr>
      in if negative
         then (set_led (flip_color (color s1)) 500 100 255 s1)
                \<lparr>print_wait_time := c_div 600 (ms_delay s1)\<rparr>
         else s1)"

section \<open>The charge state\<close>

definition get_charge_state :: "int16 \<Rightarrow> byte" where
  "get_charge_state charge_value =
     (if charge_value <s 128 then CHARGING
      else if 768 <s charge_value then CHARGED
      else BATTERY)"

text \<open>The three analog reads of \<open>get_definite_charge_state\<close> are its inputs: the charge
  pin, the thermal sensor (read to pass some time), the charge pin again.\<close>

definition get_definite_charge_state :: "int16 \<Rightarrow> int16 \<Rightarrow> int16 \<Rightarrow> hexbright \<Rightarrow> byte \<times> hexbright" where
  "get_definite_charge_state charge1 thermal charge2 s =
     (let val1 = get_charge_state charge1;
          s' = read_thermal_sensor thermal s;
          val2 = get_charge_state charge2
      in (val1 AND val2, s'))"

section \<open>The accelerometer\<close>

definition light_axis :: "float list" where
  "light_axis = [Some 0, Some (- 1), Some 0]"

text \<open>The three entries of \<open>vectors\<close> a pointer refers to.\<close>

definition vec :: "hexbright \<Rightarrow> nat \<Rightarrow> float list" where
  "vec s p = take 3 (drop p (vectors s))"

definition normalize :: "float list \<Rightarrow> float \<Rightarrow> float list" where
  "normalize in_vector magnitude = map (\<lambda>i. fdiv (in_vector ! i) magnitude) [0, 1, 2]"

definition dot_product :: "float list \<Rightarrow> float list \<Rightarrow> float" where
  "dot_product vector1 vector2 =
     fold (\<lambda>i sum. fadd sum (fmul (vector1 ! i) (vector2 ! i))) [0, 1, 2] (Some 0)"

definition get_magnitude :: "float list \<Rightarrow> float" where
  "get_magnitude vector =
     f_sqrt (fold (\<lambda>i result. fadd result (fmul (vector ! i) (vector ! i))) [0, 1, 2] (Some 0))"

definition sum_vectors :: "float list \<Rightarrow> float list \<Rightarrow> float list" where
  "sum_vectors in_vector1 in_vector2 = map (\<lambda>i. fadd (in_vector1 ! i) (in_vector2 ! i)) [0, 1, 2]"

definition angle_difference :: "float \<Rightarrow> float \<Rightarrow> float \<Rightarrow> float" where
  "angle_difference dot_prod magnitude1 magnitude2 =
     f_acos (fdiv dot_prod (fmul magnitude1 magnitude2))"

definition stationary :: "float \<Rightarrow> hexbright \<Rightarrow> bool" where
  "stationary tolerance s =
     (flt (c_abs (fsub (new_magnitude s) (Some 1))) tolerance \<and>
      flt (c_abs (fsub (old_magnitude s) (Some 1))) tolerance)"

definition jab_detect :: "float \<Rightarrow> hexbright \<Rightarrow> float" where
  "jab_detect sensitivity s =
     (let new_normalized = normalize (vec s (new_vector s)) (new_magnitude s);
          old_normalized = normalize (vec s (old_vector s)) (old_magnitude s)
      in if fgt (c_abs (fsub (old_magnitude s) (new_magnitude s))) (lit (4 / 10)) \<and>
            fgt (c_abs (dot_product new_normalized light_axis)) (lit (8 / 10)) \<and>
            fgt (c_abs (dot_product old_normalized light_axis)) (lit (8 / 10))
         then fsub (vec s (new_vector s) ! 1) (Some 20)
         else Some 0)"

text \<open>The loop over the three registers read from the bus. \<open>rx\<close> holds the bytes the
  sensor has sent and that are not read yet; an axis whose byte is missing, or has the
  alert bit \<open>0x40\<close> set, keeps the value the slot had. \<open>char\<close> is signed.\<close>

definition read_axis :: "nat \<Rightarrow> byte list \<times> hexbright \<Rightarrow> byte list \<times> hexbright" where
  "read_axis i p =
     (case p of
        ([], s) \<Rightarrow> ([], s)
      | (tmp # rx, s) \<Rightarrow>
          if tmp AND 0x40 \<noteq> 0 then (rx, s)
          else
            (let tmp' = (if tmp AND 0x20 \<noteq> 0 then tmp OR 0xC0 else tmp)
             in (rx, s\<lparr>vectors := (vectors s)[new_vector s + i := fdiv (i2f tmp') (lit (213 / 10))]\<rparr>)))"

text \<open>The instantaneous rotation around axis \<open>i\<close>.\<close>

definition axis_rotation :: "hexbright \<Rightarrow> nat \<Rightarrow> float" where
  "axis_rotation s i =
     (let nv = vec s (new_vector s); ov = vec s (old_vector s);
          r0 = fsub (fmul (nv ! ((i + 1) mod 3)) (ov ! ((i + 2) mod 3)))
                    (fmul (nv ! ((i + 2) mod 3)) (ov ! ((i + 1) mod 3)));
          r1 = fdiv r0 (fmul (new_magnitude s) (old_magnitude s))
      in fdiv r1 (f_asin (angle_change s)))"

text \<open>\<open>read_accelerometer_vector\<close>, statement by statement: the two pointers are
  swapped; the registers are read into the new vector; the magnitudes, the dot product and
  the angle are computed; then the rotations, from the angle in radians; the angle is
  converted to degrees; \<open>down\<close> is updated when the device is stationary.\<close>

definition swap_vectors :: "hexbright \<Rightarrow> hexbright" where
  "swap_vectors s = s\<lparr>new_vector := old_vector s, old_vector := new_vector s\<rparr>"

definition read_axes :: "byte list \<Rightarrow> hexbright \<Rightarrow> hexbright" where
  "read_axes rx s = snd (fold read_axis [0, 1, 2] (rx, s))"

definition update_magnitudes :: "hexbright \<Rightarrow> hexbright" where
  "update_magnitudes s =
     s\<lparr>old_magnitude := new_magnitude s,
       new_magnitude := get_magnitude (vec s (new_vector s))\<rparr>"

definition update_angle :: "hexbright \<Rightarrow> hexbright" where
  "update_angle s =
     (let d = dot_product (vec s (old_vector s)) (vec s (new_vector s))
      in s\<lparr>dp := d, angle_change := angle_difference d (new_magnitude s) (old_magnitude s)\<rparr>)"

definition update_rotation :: "hexbright \<Rightarrow> hexbright" where
  "update_rotation s = s\<lparr>axes_rotation := map (axis_rotation s) [0, 1, 2]\<rparr>"

definition angle_to_degrees :: "hexbright \<Rightarrow> hexbright" where
  "angle_to_degrees s =
     s\<lparr>angle_change := fmul (angle_change s) (fdiv (Some 180) (lit (314159 / 100000)))\<rparr>"

definition update_down :: "hexbright \<Rightarrow> hexbright" where
  "update_down s =
     (if stationary (lit (1 / 10)) s
      then s\<lparr>down := normalize (sum_vectors (vec s (new_vector s)) (vec s (old_vector s)))
                              (fadd (new_magnitude s) (old_magnitude s))\<rparr>
      else s)"

definition read_accelerometer_vector :: "byte list \<Rightarrow> hexbright \<Rightarrow> hexbright" where
  "read_accelerometer_vector rx s =
     update_down (angle_to_degrees (update_rotation (update_angle
       (update_magnitudes (read_axes rx (swap_vectors s))))))"

section \<open>Facts about 16-bit integers\<close>

lemma sint16_in_range:
  "- 32768 \<le> k \<Longrightarrow> k \<le> 32767 \<Longrightarrow> sint (word_of_int k :: int16) = k"
  by (simp add: sint_sbintrunc' signed_take_bit_int_eq_self)

lemma sint16_bounds: "- 32768 \<le> sint (w :: int16)" "sint (w :: int16) \<le> 32767"
  using sint_ge [of w] sint_lt [of w] by simp_all

lemma sint16_add:
  "- 32768 \<le> sint a + sint b \<Longrightarrow> sint a + sint b \<le> 32767 \<Longrightarrow>
   sint (a + b :: int16) = sint a + sint b"
  by (simp add: sint_word_ariths signed_take_bit_int_eq_self)

lemma sint16_diff:
  "- 32768 \<le> sint a - sint b \<Longrightarrow> sint a - sint b \<le> 32767 \<Longrightarrow>
   sint (a - b :: int16) = sint a - sint b"
  by (simp add: sint_word_ariths signed_take_bit_int_eq_self)

section \<open>The thermal governor\<close>

lemma overheat_ceiling_range:
  "0 \<le> sint (safe_light_level (overheat_protection s)) \<and>
   sint (safe_light_level (overheat_protection s)) \<le> 1000"
  by (simp add: overheat_protection_def Let_def word_sless_alt)

lemma overheat_ceiling_value:
  assumes "0 \<le> sint (safe_light_level s)" "sint (safe_light_level s) \<le> 1000"
    and "- 31447 \<le> sint (thermal_sensor_value s)"
  shows "sint (safe_light_level (overheat_protection s)) =
         max 0 (min 1000 (sint (safe_light_level s) + (320 - sint (thermal_sensor_value s))))"
proof -
  let ?t = "thermal_sensor_value s" and ?c = "safe_light_level s"
  have d: "sint (320 - ?t) = 320 - sint ?t"
    using assms(3) sint16_bounds [of ?t] by (subst sint16_diff) simp_all
  have "sint (?c + (320 - ?t)) = sint ?c + (320 - sint ?t)"
    using assms sint16_bounds [of ?t] by (subst sint16_add) (simp_all add: d)
  then show ?thesis
    by (simp add: overheat_protection_def get_thermal_sensor_def Let_def word_sless_alt)
qed

text \<open>
  C1. One tick of the thermal governor (the sensor is read, \<open>overheat_protection\<close> runs)
  with the ceiling \<open>c\<close> in \<open>[0, 1000]\<close> and the reading \<open>t\<close> sets the ceiling to
  \<open>c + (320 - t)\<close> clamped to \<open>[0, 1000]\<close>. This holds for every reading for which the
  16-bit sum does not wrap around, \<open>t \<ge> -31447\<close>, so for every value \<open>0..1023\<close> the
  converter can deliver. And after every non-empty sequence of readings, whatever 16-bit
  values they are, the ceiling is in \<open>[0, 1000]\<close>.
\<close>

theorem thermal_ceiling:
  "(0 \<le> sint c \<and> sint c \<le> 1000 \<and> - 31447 \<le> sint t \<longrightarrow>
      sint (safe_light_level (thermal_tick t (s\<lparr>safe_light_level := c\<rparr>))) =
      max 0 (min 1000 (sint c + (320 - sint t)))) \<and>
   (\<forall>ts. ts \<noteq> [] \<longrightarrow>
      0 \<le> sint (safe_light_level (fold thermal_tick ts s)) \<and>
      sint (safe_light_level (fold thermal_tick ts s)) \<le> 1000)"
proof (intro conjI impI allI)
  assume a: "0 \<le> sint c \<and> sint c \<le> 1000 \<and> - 31447 \<le> sint t"
  show "sint (safe_light_level (thermal_tick t (s\<lparr>safe_light_level := c\<rparr>))) =
      max 0 (min 1000 (sint c + (320 - sint t)))"
    using a overheat_ceiling_value [of "read_thermal_sensor t (s\<lparr>safe_light_level := c\<rparr>)"]
    by (simp add: thermal_tick_def read_thermal_sensor_def)
next
  fix ts :: "int16 list"
  assume "ts \<noteq> []"
  then obtain us u where "ts = us @ [u]" by (cases ts rule: rev_cases) auto
  then have "fold thermal_tick ts s =
      overheat_protection (read_thermal_sensor u (fold thermal_tick us s))"
    by (simp add: thermal_tick_def)
  then show "0 \<le> sint (safe_light_level (fold thermal_tick ts s))"
    and "sint (safe_light_level (fold thermal_tick ts s)) \<le> 1000"
    using overheat_ceiling_range by simp_all
qed

theorem thermal_ceiling_witness:
  "sint (safe_light_level (thermal_tick 400 ((init 10)\<lparr>safe_light_level := 1000\<rparr>))) = 920 \<and>
   0 \<le> sint (safe_light_level (fold thermal_tick [400, 1023, 0, - 32768] (init 10))) \<and>
   sint (safe_light_level (fold thermal_tick [400, 1023, 0, - 32768] (init 10))) \<le> 1000"
proof -
  note t = thermal_ceiling [of 1000 400 "init 10"]
  have "sint (safe_light_level (thermal_tick 400 ((init 10)\<lparr>safe_light_level := 1000\<rparr>))) = 920"
    using t by simp
  moreover have "[400, 1023, 0, - 32768 :: int16] \<noteq> []" by simp
  ultimately show ?thesis using t by blast
qed

section \<open>The charge state\<close>

lemma charge_state_cases:
  "get_charge_state c = 1 \<or> get_charge_state c = 3 \<or> get_charge_state c = 7"
  by (simp add: get_charge_state_def)

text \<open>
  C5. \<open>get_definite_charge_state\<close> returns the bitwise AND of the two classifications,
  with \<open>CHARGING = 1\<close>, \<open>CHARGED = 3\<close>, \<open>BATTERY = 7\<close>: a \<open>CHARGING\<close> read wins over any
  other, a \<open>CHARGED\<close> read wins over \<open>BATTERY\<close>, and \<open>BATTERY\<close> is returned exactly when
  both reads are \<open>BATTERY\<close>.
\<close>

theorem definite_charge_state_and:
  "fst (get_definite_charge_state c1 t c2 s) = get_charge_state c1 AND get_charge_state c2 \<and>
   fst (get_definite_charge_state c1 t c2 s) =
     (if get_charge_state c1 = CHARGING \<or> get_charge_state c2 = CHARGING then CHARGING
      else if get_charge_state c1 = CHARGED \<or> get_charge_state c2 = CHARGED then CHARGED
      else BATTERY) \<and>
   (fst (get_definite_charge_state c1 t c2 s) = BATTERY \<longleftrightarrow>
      get_charge_state c1 = BATTERY \<and> get_charge_state c2 = BATTERY) \<and>
   get_charge_state c1 \<in> {CHARGING, CHARGED, BATTERY} \<and>
   (CHARGING AND BATTERY = CHARGING) \<and> (BATTERY AND CHARGING = CHARGING) \<and>
   (CHARGED AND BATTERY = CHARGED) \<and> (BATTERY AND CHARGED = CHARGED) \<and>
   (CHARGING AND CHARGED = CHARGING) \<and> (CHARGED AND CHARGING = CHARGING) \<and>
   (BATTERY AND BATTERY = BATTERY)"
  using charge_state_cases [of c1] charge_state_cases [of c2]
  by (auto simp add: get_definite_charge_state_def Let_def)

section \<open>The button\<close>

lemma button_ticks_Nil: "button_ticks [] s = s"
  by (simp add: button_ticks_def)

lemma button_ticks_Cons: "button_ticks (x # xs) s = button_ticks xs (read_button x s)"
  by (simp add: button_ticks_def)

lemma button_ticks_append:
  "button_ticks (xs @ ys) s = button_ticks ys (button_ticks xs s)"
  by (simp add: button_ticks_def)

lemma pressed_ticks:
  "button_ticks (replicate n True) s =
     s\<lparr>time_held := time_held s + of_nat n, released := (if n = 0 then released s else False)\<rparr>"
proof (induction n arbitrary: s)
  case 0
  then show ?case by (simp add: button_ticks_Nil)
next
  case (Suc n)
  have "button_ticks (replicate (Suc n) True) s = button_ticks (replicate n True) (read_button True s)"
    by (simp add: button_ticks_Cons)
  then show ?case by (simp add: Suc read_button_def add.assoc add.commute)
qed

lemma unpressed_idle:
  assumes "time_held s = 0" "released s"
  shows "read_button False s = s"
  using assms by (simp add: read_button_def)

lemma unpressed_after_reset:
  "time_held s = 0 \<Longrightarrow> released s \<Longrightarrow> button_ticks (replicate m False) s = s"
  by (induction m) (simp_all add: button_ticks_Nil button_ticks_Cons unpressed_idle)

lemma of_nat_16_nonzero:
  "0 < n \<Longrightarrow> n \<le> 32767 \<Longrightarrow> (of_nat n :: int16) \<noteq> 0"
  by (rule of_nat_neq_0) simp_all

lemma sint_of_nat_16:
  "n \<le> 32767 \<Longrightarrow> sint (of_nat n :: int16) = int n"
  by (simp add: signed_of_nat signed_take_bit_int_eq_self)

lemma held_value:
  assumes "0 < sint ms" "int n * sint ms \<le> 32767"
  shows "sint ((of_nat n :: int16) * ms) = int n * sint ms"
proof -
  have "int n * 1 \<le> int n * sint ms" using assms(1) by (intro mult_left_mono) simp_all
  then have n: "n \<le> 32767" using assms(2) by simp
  have "0 \<le> int n * sint ms" using assms(1) by simp
  then show ?thesis
    using assms(2) by (simp add: sint_word_ariths sint_of_nat_16 n signed_take_bit_int_eq_self)
qed

text \<open>
  C6, as amended. The button is idle (\<open>time_held = 0\<close>), is sampled pressed for \<open>N > 0\<close>
  ticks and then unpressed, and \<open>N * ms_delay\<close> fits an \<open>int\<close>. Then \<open>button_released\<close> is
  false up to and including the last pressed tick; on the first unpressed tick it is
  true and \<open>button_held\<close> returns \<open>N * ms_delay\<close>; on every later unpressed tick
  \<open>button_released\<close> is false again and \<open>button_held\<close> returns 0, while the flag
  \<open>released\<close> stays set. So \<open>button_released\<close> is true on exactly one tick; it does not
  stay true until the next press.
\<close>

theorem button_press_release:
  assumes "time_held s = 0" and "0 < N" and "0 < sint (ms_delay s)"
    and "int N * sint (ms_delay s) \<le> 32767"
  shows "(\<forall>k. k \<le> N \<longrightarrow> \<not> button_released (button_ticks (replicate k True) s)) \<and>
         button_released (button_ticks (replicate N True @ [False]) s) \<and>
         sint (button_held (button_ticks (replicate N True @ [False]) s)) = int N * sint (ms_delay s) \<and>
         (\<forall>m. 0 < m \<longrightarrow>
            \<not> button_released (button_ticks (replicate N True @ False # replicate m False) s) \<and>
            button_held (button_ticks (replicate N True @ False # replicate m False) s) = 0 \<and>
            released (button_ticks (replicate N True @ False # replicate m False) s))"
proof -
  have "int N * 1 \<le> int N * sint (ms_delay s)" using assms(3) by (intro mult_left_mono) simp_all
  then have n: "N \<le> 32767" using assms(4) by simp
  have nz: "(of_nat N :: int16) \<noteq> 0" using assms(2) n by (rule of_nat_16_nonzero)
  let ?p = "button_ticks (replicate N True) s"
  have p: "?p = s\<lparr>time_held := of_nat N, released := False\<rparr>"
    using assms(1,2) by (simp add: pressed_ticks)
  have r1: "button_ticks (replicate N True @ [False]) s = s\<lparr>time_held := of_nat N, released := True\<rparr>"
    by (simp add: button_ticks_append p button_ticks_Cons button_ticks_Nil read_button_def)
  have r2: "button_ticks (replicate N True @ False # replicate (Suc m) False) s =
            s\<lparr>time_held := 0, released := True\<rparr>" for m
  proof -
    have "replicate N True @ False # replicate (Suc m) False =
          (replicate N True @ [False]) @ False # replicate m False"
      by simp
    then have "button_ticks (replicate N True @ False # replicate (Suc m) False) s =
          button_ticks (False # replicate m False) (button_ticks (replicate N True @ [False]) s)"
      using button_ticks_append [of "replicate N True @ [False]" "False # replicate m False" s]
      by simp
    also have "\<dots> = button_ticks (replicate m False)
          (read_button False (s\<lparr>time_held := of_nat N, released := True\<rparr>))"
      by (simp only: r1 button_ticks_Cons)
    also have "\<dots> = s\<lparr>time_held := 0, released := True\<rparr>"
      using nz by (simp add: read_button_def unpressed_after_reset)
    finally show ?thesis .
  qed
  have a: "\<forall>k. k \<le> N \<longrightarrow> \<not> button_released (button_ticks (replicate k True) s)"
    using assms(1) by (simp add: pressed_ticks button_released_def)
  have b: "button_released (button_ticks (replicate N True @ [False]) s)"
    using nz by (simp add: r1 button_released_def)
  have c: "sint (button_held (button_ticks (replicate N True @ [False]) s)) = int N * sint (ms_delay s)"
    using held_value [OF assms(3,4)] by (simp add: r1 button_held_def)
  have d: "\<not> button_released (button_ticks (replicate N True @ False # replicate m False) s) \<and>
            button_held (button_ticks (replicate N True @ False # replicate m False) s) = 0 \<and>
            released (button_ticks (replicate N True @ False # replicate m False) s)" if mpos: "0 < m" for m
  proof -
    obtain m' where "m = Suc m'" using mpos by (cases m) auto
    then show ?thesis using r2 [of m'] by (simp add: button_released_def button_held_def)
  qed
  show ?thesis using a b c d by blast
qed

theorem button_press_release_witness:
  "\<not> button_released (button_ticks (replicate 2 True) (init 10)) \<and>
   button_released (button_ticks (replicate 3 True @ [False]) (init 10)) \<and>
   sint (button_held (button_ticks (replicate 3 True @ [False]) (init 10))) = 30 \<and>
   \<not> button_released (button_ticks (replicate 3 True @ False # replicate 2 False) (init 10)) \<and>
   button_held (button_ticks (replicate 3 True @ False # replicate 2 False) (init 10)) = 0 \<and>
   released (button_ticks (replicate 3 True @ False # replicate 2 False) (init 10))"
proof -
  have h: "time_held (init 10) = 0" "0 < (3::nat)" "0 < sint (ms_delay (init 10))"
    "int 3 * sint (ms_delay (init 10)) \<le> 32767"
    by (simp_all add: init_def)
  note t = button_press_release [OF h]
  have "sint (ms_delay (init 10)) = 10" by (simp add: init_def)
  then show ?thesis using t by auto
qed

text \<open>One press, then two unpressed ticks: \<open>button_released\<close> is true after the first of
  them and false after the second, with no press in between.\<close>

theorem button_released_not_held_counterexample:
  "button_released (button_ticks [True, False] (init 10)) \<and>
   \<not> button_released (button_ticks [True, False, False] (init 10))"
  by (simp add: button_ticks_Cons button_ticks_Nil read_button_def button_released_def init_def)

section \<open>The rear LEDs\<close>

lemma adjust_leds_idle:
  assumes "led_on_time s = [- 1, - 1]" "led_wait_time s = [- 1, - 1]"
  shows "adjust_leds s = s"
  using assms by (simp add: adjust_leds_def adjust_led_def word_sless_alt word_sle_eq)

lemma adjust_leds_idle_funpow:
  assumes "led_on_time s = [- 1, - 1]" "led_wait_time s = [- 1, - 1]"
  shows "(adjust_leds ^^ n) s = s"
  by (induction n) (simp_all add: adjust_leds_idle assms)

lemma funpow_add_left: "(f ^^ (m + n)) x = (f ^^ n) ((f ^^ m) x)"
  by (simp add: funpow_add add.commute [of m n])

lemma led_on_arrays [simp]:
  "led_on_time (led_on i s) = led_on_time s" "led_wait_time (led_on i s) = led_wait_time s"
  "led_brightness (led_on i s) = led_brightness s"
  by (simp_all add: led_on_def)

lemma led_off_arrays [simp]:
  "led_on_time (led_off i s) = led_on_time s" "led_wait_time (led_off i s) = led_wait_time s"
  "led_brightness (led_off i s) = led_brightness s"
  by (simp_all add: led_off_def)

lemma s16 [simp]: "(0::int16) <s 3" "(0::int16) <s 2" "(0::int16) <s 1" "\<not> (0::int16) <s 0"
  "\<not> (0::int16) <s - 1" "\<not> (0::int16) \<le>s - 1" "(0::int16) \<le>s 0" "(0::int16) \<le>s 1" "(0::int16) \<le>s 2"
  "(0::int16) \<le>s 3"
  by (simp_all add: word_sless_alt word_sle_eq)


lemma adjust_led_frame [simp]:
  "length (led_on_time (adjust_led i s)) = length (led_on_time s)"
  "length (led_wait_time (adjust_led i s)) = length (led_wait_time s)"
  "led_brightness (adjust_led i s) = led_brightness s"
  by (simp_all add: adjust_led_def Let_def)

lemma adjust_led_other:
  assumes "j \<noteq> unat i"
  shows "led_on_time (adjust_led i s) ! j = led_on_time s ! j"
    "led_wait_time (adjust_led i s) ! j = led_wait_time s ! j"
  using assms by (simp_all add: adjust_led_def Let_def)

lemma adjust_led_other_pin:
  assumes "i = RLED \<or> i = GLED" "led = RLED \<or> led = GLED" "i \<noteq> led"
  shows "filter (\<lambda>e. pin e = led_pin led) (hw (adjust_led i s)) =
         filter (\<lambda>e. pin e = led_pin led) (hw s)"
  using assms by (auto simp add: adjust_led_def Let_def led_on_def led_off_def)

lemma adjust_led_idle:
  assumes "led_on_time s ! unat i = - 1" "led_wait_time s ! unat i = - 1"
  shows "adjust_led i s = s"
  using assms by (simp add: adjust_led_def)

lemma adjust_led_self:
  assumes "i = RLED \<or> i = GLED" "length (led_on_time s) = 2" "length (led_wait_time s) = 2"
  shows "led_on_time (adjust_led i s) ! unat i =
           (if 0 \<le>s led_on_time s ! unat i then led_on_time s ! unat i - 1 else led_on_time s ! unat i)"
    "led_wait_time (adjust_led i s) ! unat i =
           (if 0 \<le>s led_on_time s ! unat i then led_wait_time s ! unat i
            else if 0 \<le>s led_wait_time s ! unat i then led_wait_time s ! unat i - 1
            else led_wait_time s ! unat i)"
    "hw (adjust_led i s) = hw s @
           (if 0 <s led_on_time s ! unat i then on_writes i s
            else if led_on_time s ! unat i = 0 then off_writes i else [])"
  using assms
  by (auto simp add: adjust_led_def Let_def led_on_def led_off_def
      word_sless_alt word_sle_eq signed_eq_0_iff)

text \<open>One tick of \<open>adjust_leds\<close>, seen from one channel.\<close>

lemma adjust_leds_channel:
  assumes led: "led = RLED \<or> led = GLED"
    and len: "length (led_on_time s) = 2" "length (led_wait_time s) = 2"
    and k: "led_on_time s ! unat led = k" and w: "led_wait_time s ! unat led = w"
  shows "led_on_time (adjust_leds s) ! unat led = (if 0 \<le>s k then k - 1 else k)"
    and "led_wait_time (adjust_leds s) ! unat led =
           (if 0 \<le>s k then w else if 0 \<le>s w then w - 1 else w)"
    and "filter (\<lambda>e. pin e = led_pin led) (hw (adjust_leds s)) =
           filter (\<lambda>e. pin e = led_pin led) (hw s) @
           (if 0 <s k then on_writes led s else if k = 0 then off_writes led else [])"
    and "length (led_on_time (adjust_leds s)) = 2" "length (led_wait_time (adjust_leds s)) = 2"
    and "led_brightness (adjust_leds s) = led_brightness s"
    and "led_on_time s ! unat (1 - led) = - 1 \<and> led_wait_time s ! unat (1 - led) = - 1 \<Longrightarrow>
           hw (adjust_leds s) = hw s @
             (if 0 <s k then on_writes led s else if k = 0 then off_writes led else []) \<and>
           led_on_time (adjust_leds s) ! unat (1 - led) = - 1 \<and>
           led_wait_time (adjust_leds s) ! unat (1 - led) = - 1"
proof -
  define s1 where "s1 = adjust_led 0 s"
  have two: "adjust_leds s = adjust_led 1 s1" by (simp add: adjust_leds_def s1_def)
  have len1: "length (led_on_time s1) = 2" "length (led_wait_time s1) = 2"
    by (simp_all add: s1_def len)
  show "length (led_on_time (adjust_leds s)) = 2" "length (led_wait_time (adjust_leds s)) = 2"
    "led_brightness (adjust_leds s) = led_brightness s"
    by (simp_all add: two len1) (simp add: s1_def)
  from led have c: "(led = 0 \<and> unat led = 0 \<and> unat (1 - led) = 1) \<or>
     (led = 1 \<and> unat led = 1 \<and> unat (1 - led) = 0)" by auto
  note self0 = adjust_led_self [of 0 s, OF _ len, folded s1_def]
  note self1 = adjust_led_self [of 1 s1, OF _ len1, folded two]
  note oth0 = adjust_led_other [of 1 0 s, folded s1_def]
  note oth1 = adjust_led_other [of 0 1 s1, folded two]
  note pin0 = adjust_led_other_pin [of 0 1 s, folded s1_def]
  note pin1 = adjust_led_other_pin [of 1 0 s1, folded two]
  have b1: "led_brightness s1 = led_brightness s" by (simp add: s1_def)
  show "led_on_time (adjust_leds s) ! unat led = (if 0 \<le>s k then k - 1 else k)"
    using c k self0(1) self1(1) oth0(1) oth1(1) by auto
  show "led_wait_time (adjust_leds s) ! unat led =
           (if 0 \<le>s k then w else if 0 \<le>s w then w - 1 else w)"
    using c k w self0(1,2) self1(1,2) oth0 oth1 by auto
  show "filter (\<lambda>e. pin e = led_pin led) (hw (adjust_leds s)) =
           filter (\<lambda>e. pin e = led_pin led) (hw s) @
           (if 0 <s k then on_writes led s else if k = 0 then off_writes led else [])"
  proof -
    from c show ?thesis
    proof
      assume l: "led = 0 \<and> unat led = 0 \<and> unat (1 - led) = 1"
      then have "filter (\<lambda>e. pin e = led_pin led) (hw (adjust_leds s)) =
                 filter (\<lambda>e. pin e = led_pin led) (hw s1)"
        using pin1 by simp
      then show ?thesis using l k self0(3) by simp
    next
      assume l: "led = 1 \<and> unat led = 1 \<and> unat (1 - led) = 0"
      then have "filter (\<lambda>e. pin e = led_pin led) (hw s1) =
                 filter (\<lambda>e. pin e = led_pin led) (hw s)"
        using pin0 by simp
      moreover have "led_on_time s1 ! 1 = k" using l k oth0(1) by simp
      ultimately show ?thesis using l self1(3) b1 by simp
    qed
  qed
  show "hw (adjust_leds s) = hw s @
             (if 0 <s k then on_writes led s else if k = 0 then off_writes led else []) \<and>
           led_on_time (adjust_leds s) ! unat (1 - led) = - 1 \<and>
           led_wait_time (adjust_leds s) ! unat (1 - led) = - 1"
    if idle: "led_on_time s ! unat (1 - led) = - 1 \<and> led_wait_time s ! unat (1 - led) = - 1"
  proof -
    from c show ?thesis
    proof
      assume l: "led = 0 \<and> unat led = 0 \<and> unat (1 - led) = 1"
      then have i1: "led_on_time s1 ! unat (1::byte) = - 1" "led_wait_time s1 ! unat (1::byte) = - 1"
        using idle oth0 by simp_all
      then have "adjust_leds s = s1" using two adjust_led_idle [of s1 1] by simp
      then show ?thesis using l k self0(3) i1 by simp
    next
      assume l: "led = 1 \<and> unat led = 1 \<and> unat (1 - led) = 0"
      then have "s1 = s" using idle adjust_led_idle [of s 0] by (simp add: s1_def)
      then show ?thesis using l k idle self1(3) oth1 by simp
    qed
  qed
qed

text \<open>The counters and the writes of a channel armed with 3 ticks on and 2 ticks of wait,
  after \<open>n\<close> ticks.\<close>

lemma armed_channel:
  assumes led: "led = RLED \<or> led = GLED"
    and len: "length (led_on_time s) = 2" "length (led_wait_time s) = 2"
    and a: "led_on_time s ! unat led = 3" "led_wait_time s ! unat led = 2"
  defines "t \<equiv> \<lambda>n. (adjust_leds ^^ n) s"
    and "trace \<equiv> \<lambda>n. concat (replicate (min n 3) (on_writes led s)) @
                       (if 4 \<le> n then off_writes led else [])"
  shows "length (led_on_time (t n)) = 2 \<and> length (led_wait_time (t n)) = 2 \<and>
     led_brightness (t n) = led_brightness s \<and>
     led_on_time (t n) ! unat led = (if n \<le> 3 then of_nat (3 - n) else - 1) \<and>
     led_wait_time (t n) ! unat led =
       (if n \<le> 4 then 2 else if n = 5 then 1 else if n = 6 then 0 else - 1) \<and>
     filter (\<lambda>e. pin e = led_pin led) (hw (t n)) =
       filter (\<lambda>e. pin e = led_pin led) (hw s) @ trace n \<and>
     (led_on_time s ! unat (1 - led) = - 1 \<and> led_wait_time s ! unat (1 - led) = - 1 \<longrightarrow>
        hw (t n) = hw s @ trace n \<and>
        led_on_time (t n) ! unat (1 - led) = - 1 \<and> led_wait_time (t n) ! unat (1 - led) = - 1)"
proof (induction n)
  case 0
  show ?case using len a by (simp add: t_def trace_def)
next
  case (Suc n)
  have step: "t (Suc n) = adjust_leds (t n)" by (simp add: t_def)
  from Suc have l: "length (led_on_time (t n)) = 2" "length (led_wait_time (t n)) = 2"
    and b: "led_brightness (t n) = led_brightness s"
    and k: "led_on_time (t n) ! unat led = (if n \<le> 3 then of_nat (3 - n) else - 1)"
    and w: "led_wait_time (t n) ! unat led =
       (if n \<le> 4 then 2 else if n = 5 then 1 else if n = 6 then 0 else - 1)"
    and f: "filter (\<lambda>e. pin e = led_pin led) (hw (t n)) =
       filter (\<lambda>e. pin e = led_pin led) (hw s) @ trace n"
    and i: "led_on_time s ! unat (1 - led) = - 1 \<and> led_wait_time s ! unat (1 - led) = - 1 \<longrightarrow>
        hw (t n) = hw s @ trace n \<and>
        led_on_time (t n) ! unat (1 - led) = - 1 \<and> led_wait_time (t n) ! unat (1 - led) = - 1"
    by blast+
  note c = adjust_leds_channel [OF led l k w, folded step, unfolded b]
  have cs: "7 \<le> n \<or> n = 6 \<or> n = 5 \<or> n = 4 \<or> n = 3 \<or> n = 2 \<or> n = 1 \<or> n = 0"
    by linarith
  let ?k = "if n \<le> 3 then of_nat (3 - n) else - 1 :: int16"
  have d: "trace (Suc n) = trace n @
      (if 0 <s ?k then on_writes led s else if ?k = 0 then off_writes led else [])"
    using cs by (elim disjE) (simp_all add: trace_def eval_nat_numeral)
  have 1: "led_on_time (t (Suc n)) ! unat led = (if Suc n \<le> 3 then of_nat (3 - Suc n) else - 1)"
    using cs c(1) by (elim disjE) simp_all
  have 2: "led_wait_time (t (Suc n)) ! unat led =
       (if Suc n \<le> 4 then 2 else if Suc n = 5 then 1 else if Suc n = 6 then 0 else - 1)"
    using cs c(2) by (elim disjE) simp_all
  have 3: "filter (\<lambda>e. pin e = led_pin led) (hw (t (Suc n))) =
       filter (\<lambda>e. pin e = led_pin led) (hw s) @ trace (Suc n)"
    unfolding d c(3) f by simp
  have 4: "hw (t (Suc n)) = hw s @ trace (Suc n) \<and>
        led_on_time (t (Suc n)) ! unat (1 - led) = - 1 \<and>
        led_wait_time (t (Suc n)) ! unat (1 - led) = - 1"
    if "led_on_time s ! unat (1 - led) = - 1 \<and> led_wait_time s ! unat (1 - led) = - 1"
  proof -
    have j: "hw (t n) = hw s @ trace n"
      "led_on_time (t n) ! unat (1 - led) = - 1 \<and> led_wait_time (t n) ! unat (1 - led) = - 1"
      using i that by blast+
    show ?thesis using c(7) [OF j(2)] unfolding d j(1) by simp
  qed
  show ?case using c(4,5,6) 1 2 3 4 by blast
qed

text \<open>
  C7. A channel (\<open>RLED\<close> or \<open>GLED\<close>) is armed with 3 ticks on and 2 ticks of wait;
  \<open>t\<close> is the state after \<open>n\<close> ticks of \<open>adjust_leds\<close>. The calls made on the pin of
  the channel are the ON calls (\<open>analogWrite\<close> of the brightness, and for the red channel
  \<open>pinMode OUTPUT\<close>) once on each of the first three ticks, then the OFF calls
  (\<open>digitalWrite LOW\<close>, for the red channel after \<open>pinMode\<close>) once on the fourth tick,
  the tick on which the on-counter is 0 and becomes -1, and nothing after that, whatever
  the other channel does; when the other channel is idle these are all the calls
  \<open>adjust_leds\<close> makes. The on-counter is \<open>3 - n\<close> up to the third tick and -1 from the
  fourth. \<open>get_led_state\<close> is \<open>LED_ON\<close> up to the third tick, \<open>LED_WAIT\<close> after the fourth
  and the fifth, and \<open>LED_OFF\<close> from the sixth on.
\<close>

theorem led_on3_wait2:
  assumes led: "led = RLED \<or> led = GLED"
    and len: "length (led_on_time s) = 2" "length (led_wait_time s) = 2"
    and a: "led_on_time s ! unat led = 3" "led_wait_time s ! unat led = 2"
  shows "\<forall>n.
     (let t = (adjust_leds ^^ n) s;
          p = (if led = RLED then DPIN_RLED_SW else DPIN_GLED);
          on = (if led = RLED
                then [AnalogWrite DPIN_RLED_SW (ucast (led_brightness s ! 0)),
                      PinMode DPIN_RLED_SW OUTPUT]
                else [AnalogWrite DPIN_GLED (ucast (led_brightness s ! 1))]);
          off = (if led = RLED then [PinMode DPIN_RLED_SW 0, DigitalWrite DPIN_RLED_SW LOW]
                 else [DigitalWrite DPIN_GLED LOW]);
          trace = concat (replicate (min n 3) on) @ (if 4 \<le> n then off else [])
      in filter (\<lambda>e. pin e = p) (hw t) = filter (\<lambda>e. pin e = p) (hw s) @ trace \<and>
         (led_on_time s ! unat (1 - led) = - 1 \<and> led_wait_time s ! unat (1 - led) = - 1 \<longrightarrow>
            hw t = hw s @ trace) \<and>
         led_on_time t ! unat led = (if n \<le> 3 then of_nat (3 - n) else - 1) \<and>
         get_led_state led t =
           (if n \<le> 3 then LED_ON else if n \<le> 5 then LED_WAIT else LED_OFF))"
proof
  fix n :: nat
  note c = armed_channel [OF led len a, of n]
  have cs: "7 \<le> n \<or> n = 6 \<or> n = 5 \<or> n = 4 \<or> n = 3 \<or> n = 2 \<or> n = 1 \<or> n = 0"
    by linarith
  have k: "led_on_time ((adjust_leds ^^ n) s) ! unat led = (if n \<le> 3 then of_nat (3 - n) else - 1)"
    and w: "led_wait_time ((adjust_leds ^^ n) s) ! unat led =
       (if n \<le> 4 then 2 else if n = 5 then 1 else if n = 6 then 0 else - 1)"
    using c by blast+
  have g: "get_led_state led ((adjust_leds ^^ n) s) =
           (if n \<le> 3 then LED_ON else if n \<le> 5 then LED_WAIT else LED_OFF)"
    unfolding get_led_state_def k w using cs by (elim disjE) simp_all
  show "let t = (adjust_leds ^^ n) s;
          p = (if led = RLED then DPIN_RLED_SW else DPIN_GLED);
          on = (if led = RLED
                then [AnalogWrite DPIN_RLED_SW (ucast (led_brightness s ! 0)),
                      PinMode DPIN_RLED_SW OUTPUT]
                else [AnalogWrite DPIN_GLED (ucast (led_brightness s ! 1))]);
          off = (if led = RLED then [PinMode DPIN_RLED_SW 0, DigitalWrite DPIN_RLED_SW LOW]
                 else [DigitalWrite DPIN_GLED LOW]);
          trace = concat (replicate (min n 3) on) @ (if 4 \<le> n then off else [])
      in filter (\<lambda>e. pin e = p) (hw t) = filter (\<lambda>e. pin e = p) (hw s) @ trace \<and>
         (led_on_time s ! unat (1 - led) = - 1 \<and> led_wait_time s ! unat (1 - led) = - 1 \<longrightarrow>
            hw t = hw s @ trace) \<and>
         led_on_time t ! unat led = (if n \<le> 3 then of_nat (3 - n) else - 1) \<and>
         get_led_state led t =
           (if n \<le> 3 then LED_ON else if n \<le> 5 then LED_WAIT else LED_OFF)"
    unfolding Let_def using c g by blast
qed

lemma c_div_30_10 [simp]: "c_div (30::int16) 10 = 3" "c_div (20::int16) 10 = 2"
  "c_div (50::int16) 10 = 5"
  by (simp_all add: c_div_def)

text \<open>The red channel armed alone; the green channel armed alone; the red channel while
  the green one is armed too.\<close>

theorem led_on3_wait2_witness:
  "hw ((adjust_leds ^^ 4) (set_led RLED 30 20 255 (init 10))) =
     [AnalogWrite DPIN_RLED_SW 255, PinMode DPIN_RLED_SW OUTPUT,
      AnalogWrite DPIN_RLED_SW 255, PinMode DPIN_RLED_SW OUTPUT,
      AnalogWrite DPIN_RLED_SW 255, PinMode DPIN_RLED_SW OUTPUT,
      PinMode DPIN_RLED_SW 0, DigitalWrite DPIN_RLED_SW LOW] \<and>
   hw ((adjust_leds ^^ 104) (set_led RLED 30 20 255 (init 10))) =
     [AnalogWrite DPIN_RLED_SW 255, PinMode DPIN_RLED_SW OUTPUT,
      AnalogWrite DPIN_RLED_SW 255, PinMode DPIN_RLED_SW OUTPUT,
      AnalogWrite DPIN_RLED_SW 255, PinMode DPIN_RLED_SW OUTPUT,
      PinMode DPIN_RLED_SW 0, DigitalWrite DPIN_RLED_SW LOW] \<and>
   hw ((adjust_leds ^^ 3) (set_led RLED 30 20 255 (init 10))) =
     [AnalogWrite DPIN_RLED_SW 255, PinMode DPIN_RLED_SW OUTPUT,
      AnalogWrite DPIN_RLED_SW 255, PinMode DPIN_RLED_SW OUTPUT,
      AnalogWrite DPIN_RLED_SW 255, PinMode DPIN_RLED_SW OUTPUT] \<and>
   hw ((adjust_leds ^^ 104) (set_led GLED 30 20 255 (init 10))) =
     [AnalogWrite DPIN_GLED 255, AnalogWrite DPIN_GLED 255, AnalogWrite DPIN_GLED 255,
      DigitalWrite DPIN_GLED LOW] \<and>
   filter (\<lambda>e. pin e = DPIN_RLED_SW)
     (hw ((adjust_leds ^^ 104) (set_led GLED 50 20 255 (set_led RLED 30 20 7 (init 10))))) =
     [AnalogWrite DPIN_RLED_SW 7, PinMode DPIN_RLED_SW OUTPUT,
      AnalogWrite DPIN_RLED_SW 7, PinMode DPIN_RLED_SW OUTPUT,
      AnalogWrite DPIN_RLED_SW 7, PinMode DPIN_RLED_SW OUTPUT,
      PinMode DPIN_RLED_SW 0, DigitalWrite DPIN_RLED_SW LOW] \<and>
   get_led_state RLED ((adjust_leds ^^ 3) (set_led RLED 30 20 255 (init 10))) = LED_ON \<and>
   get_led_state RLED ((adjust_leds ^^ 5) (set_led RLED 30 20 255 (init 10))) = LED_WAIT \<and>
   get_led_state RLED ((adjust_leds ^^ 106) (set_led RLED 30 20 255 (init 10))) = LED_OFF"
proof -
  let ?r = "set_led RLED 30 20 255 (init 10)"
  let ?g = "set_led GLED 30 20 255 (init 10)"
  let ?b = "set_led GLED 50 20 255 (set_led RLED 30 20 7 (init 10))"
  have r: "led_on_time ?r = [3, - 1]" "led_wait_time ?r = [2, - 1]" "led_brightness ?r = [255, 0]"
    "hw ?r = []"
    by (simp_all add: set_led_def init_def)
  have g: "led_on_time ?g = [- 1, 3]" "led_wait_time ?g = [- 1, 2]" "led_brightness ?g = [0, 255]"
    "hw ?g = []"
    by (simp_all add: set_led_def init_def)
  have b: "led_on_time ?b = [3, 5]" "led_wait_time ?b = [2, 2]" "led_brightness ?b = [7, 255]"
    "hw ?b = []"
    by (simp_all add: set_led_def init_def)
  have three: "concat (replicate 3 x) = x @ x @ x" "replicate 3 e = [e, e, e]"
    for x :: "hw_event list" and e :: hw_event
    by (simp_all add: eval_nat_numeral)
  have h: "RLED = RLED \<or> RLED = GLED" "GLED = RLED \<or> GLED = GLED" by simp_all
  have tr: "hw ((adjust_leds ^^ n) ?r) =
       concat (replicate (min n 3) [AnalogWrite DPIN_RLED_SW 255, PinMode DPIN_RLED_SW OUTPUT]) @
       (if 4 \<le> n then [PinMode DPIN_RLED_SW 0, DigitalWrite DPIN_RLED_SW LOW] else [])"
    "get_led_state RLED ((adjust_leds ^^ n) ?r) =
           (if n \<le> 3 then LED_ON else if n \<le> 5 then LED_WAIT else LED_OFF)" for n
    using led_on3_wait2 [of RLED ?r, OF h(1), THEN spec, of n] unfolding Let_def r
    by simp_all
  have tg: "hw ((adjust_leds ^^ n) ?g) =
       concat (replicate (min n 3) [AnalogWrite DPIN_GLED 255]) @
       (if 4 \<le> n then [DigitalWrite DPIN_GLED LOW] else [])" for n
    using led_on3_wait2 [of GLED ?g, OF h(2), THEN spec, of n] unfolding Let_def g
    by simp
  have tb: "filter (\<lambda>e. pin e = DPIN_RLED_SW) (hw ((adjust_leds ^^ n) ?b)) =
       concat (replicate (min n 3) [AnalogWrite DPIN_RLED_SW 7, PinMode DPIN_RLED_SW OUTPUT]) @
       (if 4 \<le> n then [PinMode DPIN_RLED_SW 0, DigitalWrite DPIN_RLED_SW LOW] else [])" for n
    using led_on3_wait2 [of RLED ?b, OF h(1), THEN spec, of n] unfolding Let_def b
    by simp
  show ?thesis
    unfolding tr tg tb by (simp add: three)
qed

section \<open>Printing a number\<close>

lemma flip_color_simps [simp]: "flip_color 0 = 1" "flip_color 1 = 0"
  by (simp_all add: flip_color_def c_mod_def signed_modulo_int_def)

lemma long_arith [simp]:
  "c_div (100 :: long32) 10 = 10" "c_mod (100 :: long32) 10 = 0"
  "c_div (10 :: long32) 10 = 1" "c_mod (10 :: long32) 10 = 0"
  "c_div (1 :: long32) 10 = 0" "c_mod (1 :: long32) 10 = 1"
  "c_div (1001 :: long32) 10 = 100" "c_div (1000 :: long32) 10 = 100" "c_mod (1000 :: long32) 10 = 0"
  "(0 :: long32) <s 100" "(0 :: long32) <s 10" "(0 :: long32) <s 1" "\<not> (0 :: long32) <s 0"
  "(0 :: long32) <s 1001" "\<not> (100 :: long32) <s 0"
  by (simp_all add: c_div_def c_mod_def word_sless_alt signed_divide_int_def signed_modulo_int_def)

lemma reverse_100_steps:
  "reverse_digits 100 1 GLED = reverse_digits 10 10 RLED"
  "reverse_digits 10 10 RLED = reverse_digits 1 100 GLED"
  "reverse_digits 1 100 GLED = reverse_digits 0 1001 RLED"
  "reverse_digits 0 1001 RLED = (1001, RLED)"
  by (simp_all add: reverse_digits.simps)

lemma reverse_100: "reverse_digits 100 1 GLED = (1001, RLED)"
  by (simp add: reverse_100_steps)

lemma print_number_100:
  "print_number 100 s = s\<lparr>color := RLED, number := 1001\<rparr>"
  by (simp add: print_number_def reverse_100)

lemma wait_tick:
  "print_wait_time s \<noteq> 0 \<Longrightarrow> update_number s = s\<lparr>print_wait_time := print_wait_time s - 1\<rparr>"
  by (simp add: update_number_def)

lemma wait_ticks:
  "n \<le> unat (print_wait_time s) \<Longrightarrow>
   (update_number ^^ n) s = s\<lparr>print_wait_time := print_wait_time s - of_nat n\<rparr>"
proof (induction n)
  case 0
  then show ?case by simp
next
  case (Suc n)
  then have lt: "n < unat (print_wait_time s)" by simp
  have "print_wait_time s - of_nat n \<noteq> 0"
  proof
    assume "print_wait_time s - of_nat n = 0"
    then have "print_wait_time s = of_nat n" by simp
    then have "unat (print_wait_time s) = unat (of_nat n :: int16)" by simp
    also have "\<dots> \<le> n" by (simp add: unat_of_nat)
    finally show False using lt by simp
  qed
  then show ?case using Suc.IH lt by (simp add: wait_tick)
qed


lemma set_led_fields [simp]:
  "number (set_led l a b c s) = number s" "color (set_led l a b c s) = color s"
  "print_wait_time (set_led l a b c s) = print_wait_time s"
  "ms_delay (set_led l a b c s) = ms_delay s"
  by (simp_all add: set_led_def)

lemma emit_short:
  assumes "number s = 1001" "print_wait_time s = 0"
  shows "update_number s =
    (set_led (color s) 120 100 255 s)
      \<lparr>number := 100, color := flip_color (color s),
        print_wait_time := (if c_div 600 (ms_delay s) = 0 then 0 else c_div 600 (ms_delay s) - 1)\<rparr>"
  using assms by (simp add: update_number_def Let_def set_led_def)

lemma emit_zero_100:
  assumes "number s = 100" "print_wait_time s = 0"
  shows "update_number s =
    (set_led (color s) 400 100 255 s)
      \<lparr>number := 10, color := flip_color (color s),
        print_wait_time := (if c_div 600 (ms_delay s) = 0 then 0 else c_div 600 (ms_delay s) - 1)\<rparr>"
  using assms by (simp add: update_number_def Let_def set_led_def)

lemma emit_zero_10:
  assumes "number s = 10" "print_wait_time s = 0"
  shows "update_number s =
    (set_led (color s) 400 100 255 s)
      \<lparr>number := 1, color := flip_color (color s),
        print_wait_time := (if c_div 600 (ms_delay s) = 0 then 0 else c_div 600 (ms_delay s) - 1)\<rparr>"
  using assms by (simp add: update_number_def Let_def set_led_def)

lemma emit_pause:
  assumes "number s = 1" "print_wait_time s = 0"
  shows "update_number s = s\<lparr>print_wait_time := c_div 2500 (ms_delay s), number := 0\<rparr>"
  using assms by (simp add: update_number_def)


lemma pause_length:
  fixes W :: int16
  shows "unat (if W = 0 then 0 else W - 1) = (if W = 0 then 1 else unat W) - 1"
  by (simp add: unat_minus_one)

lemma pause_ticks:
  fixes W :: int16
  assumes "print_wait_time A = (if W = 0 then 0 else W - 1)"
    and "k < (if W = 0 then 1 else unat W)"
  shows "(update_number ^^ k) A = A\<lparr>print_wait_time := print_wait_time A - of_nat k\<rparr>"
proof -
  have "k \<le> unat (print_wait_time A)"
    using assms(2) unfolding assms(1) pause_length by simp
  then show ?thesis by (rule wait_ticks)
qed

lemma pause_end:
  fixes W :: int16
  assumes "print_wait_time A = (if W = 0 then 0 else W - 1)"
  shows "(update_number ^^ ((if W = 0 then 1 else unat W) - 1)) A = A\<lparr>print_wait_time := 0\<rparr>"
proof -
  have u: "unat (print_wait_time A) = (if W = 0 then 1 else unat W) - 1"
    unfolding assms pause_length ..
  have "(update_number ^^ unat (print_wait_time A)) A =
        A\<lparr>print_wait_time := print_wait_time A - of_nat (unat (print_wait_time A))\<rparr>"
    by (rule wait_ticks) simp
  then show ?thesis unfolding u [symmetric] by simp
qed

text \<open>
  C8. \<open>print_number 100\<close> starts the remaining value at 1 and appends the digits of 100
  from the right, \<open>1 \<rightarrow> 10 \<rightarrow> 100 \<rightarrow> 1001\<close>, leaving the colour at \<open>RLED\<close>. With no pause
  pending, \<open>update_number\<close> then arms a short blink (120 ms) of \<open>RLED\<close> for the digit 1 on
  its first tick, a long blink (400 ms) of \<open>GLED\<close> for the first zero \<open>P\<close> ticks later, a
  long blink of \<open>RLED\<close> for the second zero after another \<open>P\<close> ticks, and the final pause
  of 2500 ms after \<open>P\<close> more ticks, which clears the number; the ticks in between only
  count the pause of 600 ms down. \<open>P\<close> is the number of ticks of that pause.
\<close>

theorem print_number_100_blinks:
  fixes s :: hexbright
  defines "W \<equiv> c_div 600 (ms_delay s)"
  defines "W1 \<equiv> (if W = 0 then 0 else W - 1)"
  defines "P \<equiv> (if W = 0 then 1 else unat W)"
  defines "s0 \<equiv> print_number 100 s"
  defines "b1 \<equiv> (set_led RLED 120 100 255 s0)\<lparr>number := 100, color := GLED, print_wait_time := W1\<rparr>"
  defines "b2 \<equiv> (set_led GLED 400 100 255 b1)\<lparr>number := 10, color := RLED, print_wait_time := W1\<rparr>"
  defines "b3 \<equiv> (set_led RLED 400 100 255 b2)\<lparr>number := 1, color := GLED, print_wait_time := W1\<rparr>"
  assumes idle: "print_wait_time s = 0" and ms: "ms_delay s \<noteq> 0"
  shows "reverse_digits 100 1 GLED = reverse_digits 10 10 RLED \<and>
    reverse_digits 10 10 RLED = reverse_digits 1 100 GLED \<and>
    reverse_digits 1 100 GLED = reverse_digits 0 1001 RLED \<and>
    number s0 = 1001 \<and> color s0 = RLED \<and>
    (\<forall>k<P. (update_number ^^ (1 + k)) s0 = b1\<lparr>print_wait_time := W1 - of_nat k\<rparr>) \<and>
    (\<forall>k<P. (update_number ^^ (P + 1 + k)) s0 = b2\<lparr>print_wait_time := W1 - of_nat k\<rparr>) \<and>
    (\<forall>k<P. (update_number ^^ (2 * P + 1 + k)) s0 = b3\<lparr>print_wait_time := W1 - of_nat k\<rparr>) \<and>
    (update_number ^^ (3 * P + 1)) s0 = b3\<lparr>print_wait_time := c_div 2500 (ms_delay s), number := 0\<rparr>"
proof -
  have s0: "s0 = s\<lparr>color := RLED, number := 1001\<rparr>"
    by (simp add: s0_def print_number_100)
  have Ppos: "0 < P" by (simp add: P_def unat_gt_0)
  have w: "print_wait_time b1 = (if W = 0 then 0 else W - 1)"
    "print_wait_time b2 = (if W = 0 then 0 else W - 1)"
    "print_wait_time b3 = (if W = 0 then 0 else W - 1)"
    by (simp_all add: b1_def b2_def b3_def W1_def)
  have ms0: "ms_delay s0 = ms_delay s" "ms_delay b1 = ms_delay s" "ms_delay b2 = ms_delay s"
    "ms_delay b3 = ms_delay s"
    by (simp_all add: s0 b1_def b2_def b3_def)
  note pt = pause_ticks [OF w(1), folded P_def] pause_ticks [OF w(2), folded P_def]
    pause_ticks [OF w(3), folded P_def]
  note pe = pause_end [OF w(1), folded P_def] pause_end [OF w(2), folded P_def]
    pause_end [OF w(3), folded P_def]
  have one: "(update_number ^^ (m + 1)) x = update_number ((update_number ^^ m) x)" for m x
    by simp
  \<comment> \<open>the digit 1: a short blink\<close>
  have t1: "update_number s0 = b1"
    using emit_short [of s0] idle by (simp add: s0 b1_def W1_def W_def)
  then have f1: "(update_number ^^ 1) s0 = b1" by simp
  have p1: "(update_number ^^ (1 + k)) s0 = b1\<lparr>print_wait_time := W1 - of_nat k\<rparr>" if "k < P" for k
    unfolding funpow_add_left [where m = 1 and n = k] f1 using pt(1) [OF that] w(1)
    by (simp add: W1_def)
  have e1: "(update_number ^^ P) s0 = b1\<lparr>print_wait_time := 0\<rparr>"
  proof -
    have "(update_number ^^ (1 + (P - 1))) s0 = b1\<lparr>print_wait_time := 0\<rparr>"
      unfolding funpow_add_left [where m = 1 and n = "P - 1"] f1 by (rule pe(1))
    moreover have "1 + (P - 1) = P" using Ppos by simp
    ultimately show ?thesis by (simp only:)
  qed
  \<comment> \<open>the first 0: a long blink\<close>
  have t2: "update_number (b1\<lparr>print_wait_time := 0\<rparr>) = b2"
    using emit_zero_100 [of "b1\<lparr>print_wait_time := 0\<rparr>"]
    by (simp add: b1_def b2_def W1_def W_def s0 set_led_def)
  have f2: "(update_number ^^ (P + 1)) s0 = b2"
    unfolding one e1 by (rule t2)
  have p2: "(update_number ^^ (P + 1 + k)) s0 = b2\<lparr>print_wait_time := W1 - of_nat k\<rparr>" if "k < P" for k
    unfolding funpow_add_left [where m = "P + 1" and n = k] f2 using pt(2) [OF that] w(2)
    by (simp add: W1_def)
  have e2: "(update_number ^^ (2 * P)) s0 = b2\<lparr>print_wait_time := 0\<rparr>"
  proof -
    have "(update_number ^^ ((P + 1) + (P - 1))) s0 = b2\<lparr>print_wait_time := 0\<rparr>"
      unfolding funpow_add_left [where m = "P + 1" and n = "P - 1"] f2 by (rule pe(2))
    moreover have "(P + 1) + (P - 1) = 2 * P" using Ppos by simp
    ultimately show ?thesis by (simp only:)
  qed
  \<comment> \<open>the second 0: a long blink\<close>
  have t3: "update_number (b2\<lparr>print_wait_time := 0\<rparr>) = b3"
    using emit_zero_10 [of "b2\<lparr>print_wait_time := 0\<rparr>"]
    by (simp add: b1_def b2_def b3_def W1_def W_def s0 set_led_def)
  have f3: "(update_number ^^ (2 * P + 1)) s0 = b3"
    unfolding one e2 by (rule t3)
  have p3: "(update_number ^^ (2 * P + 1 + k)) s0 = b3\<lparr>print_wait_time := W1 - of_nat k\<rparr>" if "k < P" for k
    unfolding funpow_add_left [where m = "2 * P + 1" and n = k] f3 using pt(3) [OF that] w(3)
    by (simp add: W1_def)
  have e3: "(update_number ^^ (3 * P)) s0 = b3\<lparr>print_wait_time := 0\<rparr>"
  proof -
    have "(update_number ^^ ((2 * P + 1) + (P - 1))) s0 = b3\<lparr>print_wait_time := 0\<rparr>"
      unfolding funpow_add_left [where m = "2 * P + 1" and n = "P - 1"] f3 by (rule pe(3))
    moreover have "(2 * P + 1) + (P - 1) = 3 * P" using Ppos by simp
    ultimately show ?thesis by (simp only:)
  qed
  \<comment> \<open>the pause that ends the number\<close>
  have t4: "update_number (b3\<lparr>print_wait_time := 0\<rparr>) =
            b3\<lparr>print_wait_time := c_div 2500 (ms_delay s), number := 0\<rparr>"
    using emit_pause [of "b3\<lparr>print_wait_time := 0\<rparr>"] by (simp add: b3_def ms0 b2_def b1_def s0)
  have f4: "(update_number ^^ (3 * P + 1)) s0 =
            b3\<lparr>print_wait_time := c_div 2500 (ms_delay s), number := 0\<rparr>"
    unfolding one e3 by (rule t4)
  show ?thesis using p1 p2 p3 f4 by (simp add: s0 reverse_100_steps)
qed


theorem print_number_100_blinks_witness:
  "number (print_number 100 (init 10)) = 1001 \<and>
   led_on_time (update_number (print_number 100 (init 10))) = [12, - 1] \<and>
   number (update_number (print_number 100 (init 10))) = 100 \<and>
   led_on_time ((update_number ^^ 61) (print_number 100 (init 10))) = [12, 40] \<and>
   led_on_time ((update_number ^^ 121) (print_number 100 (init 10))) = [40, 40] \<and>
   number ((update_number ^^ 181) (print_number 100 (init 10))) = 0 \<and>
   print_wait_time ((update_number ^^ 181) (print_number 100 (init 10))) = 250"
proof -
  have h: "print_wait_time (init 10) = 0" "ms_delay (init 10) \<noteq> 0"
    by (simp_all add: init_def)
  have d: "c_div (600 :: int16) 10 = 60" "c_div (2500 :: int16) 10 = 250"
    "c_div (120 :: int16) 10 = 12" "c_div (400 :: int16) 10 = 40" "c_div (100 :: int16) 10 = 10"
    by (simp_all add: c_div_def)
  have P: "(if c_div 600 (ms_delay (init 10)) = 0 then 1
            else unat (c_div 600 (ms_delay (init 10)))) = 60"
    by (simp add: init_def d)
  note t = print_number_100_blinks [OF h, unfolded P]
  note u = t [THEN conjunct2, THEN conjunct2, THEN conjunct2]
  note t0 = u [THEN conjunct1]
  note t1 = u [THEN conjunct2, THEN conjunct2, THEN conjunct1, rule_format, of 0]
  note t2 = u [THEN conjunct2, THEN conjunct2, THEN conjunct2, THEN conjunct1, rule_format, of 0]
  note t3 = u [THEN conjunct2, THEN conjunct2, THEN conjunct2, THEN conjunct2, THEN conjunct1,
      rule_format, of 0]
  note t4 = u [THEN conjunct2, THEN conjunct2, THEN conjunct2, THEN conjunct2, THEN conjunct2]
  show ?thesis
    using t0 t1 t2 t3 t4 by (simp add: set_led_def print_number_100 init_def d)
qed

section \<open>Rounding to single precision\<close>

lemma flog2_bounds:
  "0 < x \<Longrightarrow> 2 powi flog2 x \<le> x \<and> x < 2 powi (flog2 x + 1)"
proof (induction x rule: flog2.induct)
  case (1 x)
  show ?case
  proof (cases "2 \<le> x")
    case True
    then have f: "flog2 x = flog2 (x / 2) + 1" using 1(3) by (subst flog2.simps) simp
    have "2 powi flog2 (x / 2) \<le> x / 2 \<and> x / 2 < 2 powi (flog2 (x / 2) + 1)"
      using 1(1) [OF _ True] 1(3) by simp
    then show ?thesis unfolding f by (simp add: power_int_add)
  next
    case False
    show ?thesis
    proof (cases "x < 1")
      case True
      then have f: "flog2 x = flog2 (x * 2) - 1" using False 1(3) by (subst flog2.simps) simp
      have "2 powi flog2 (x * 2) \<le> x * 2 \<and> x * 2 < 2 powi (flog2 (x * 2) + 1)"
        using 1(2) [OF _ False True] 1(3) by simp
      then show ?thesis unfolding f by (simp add: power_int_diff power_int_add)
    next
      case c: False
      then have "flog2 x = 0" using False 1(3) by (subst flog2.simps) simp
      then show ?thesis using False c by simp
    qed
  qed
qed

lemma two_powi_less_imp: "(2::real) powi a < 2 powi b \<Longrightarrow> a < b"
proof (rule ccontr)
  assume a: "(2::real) powi a < 2 powi b" "\<not> a < b"
  then have "(2::real) powi b \<le> 2 powi a" by (intro power_int_increasing) simp_all
  then show False using a(1) by simp
qed

lemma flog2_less: "0 < x \<Longrightarrow> x < 2 powi k \<Longrightarrow> flog2 x < k"
proof -
  assume a: "0 < x" "x < 2 powi k"
  then have "(2::real) powi flog2 x < 2 powi k" using flog2_bounds [of x] by simp
  then show ?thesis by (rule two_powi_less_imp)
qed

lemma flog2_mono: "0 < x \<Longrightarrow> x \<le> y \<Longrightarrow> flog2 x \<le> flog2 y"
proof -
  assume a: "0 < x" "x \<le> y"
  then have "(2::real) powi flog2 x < 2 powi (flog2 y + 1)"
    using flog2_bounds [of x] flog2_bounds [of y] by simp
  then have "flog2 x < flog2 y + 1" by (rule two_powi_less_imp)
  then show ?thesis by simp
qed

lemma ulp_exp_mono: "x \<noteq> 0 \<Longrightarrow> \<bar>x\<bar> \<le> \<bar>y\<bar> \<Longrightarrow> ulp_exp x \<le> ulp_exp y"
  using flog2_mono [of "\<bar>x\<bar>" "\<bar>y\<bar>"] by (simp add: ulp_exp_def)

subsection \<open>Rounding to an integer\<close>

lemma rne_of_int [simp]: "rne (of_int n) = n"
  by (simp add: rne_def)

lemma rne_le_int: "y \<le> of_int n \<Longrightarrow> rne y \<le> n"
proof -
  assume a: "y \<le> of_int n"
  have "rne y \<le> \<lfloor>y\<rfloor> + 1" by (simp add: rne_def Let_def)
  show ?thesis
  proof (cases "y = of_int n")
    case True
    then show ?thesis by simp
  next
    case False
    then have "y < of_int n" using a by simp
    then have "\<lfloor>y\<rfloor> < n" by (simp add: floor_less_iff)
    then show ?thesis using \<open>rne y \<le> \<lfloor>y\<rfloor> + 1\<close> by simp
  qed
qed

lemma rne_ge_int: "of_int n \<le> y \<Longrightarrow> n \<le> rne y"
proof -
  assume a: "of_int n \<le> y"
  then have "n \<le> \<lfloor>y\<rfloor>" by (simp add: le_floor_iff)
  moreover have "\<lfloor>y\<rfloor> \<le> rne y" by (simp add: rne_def Let_def)
  ultimately show ?thesis by simp
qed

lemma rne_bounds: "\<lfloor>y\<rfloor> \<le> rne y" "rne y \<le> \<lfloor>y\<rfloor> + 1"
  by (simp_all add: rne_def Let_def)

lemma rne_mono: "x \<le> y \<Longrightarrow> rne x \<le> rne y"
proof -
  assume a: "x \<le> y"
  have fl: "\<lfloor>x\<rfloor> \<le> \<lfloor>y\<rfloor>" using a by (rule floor_mono)
  show ?thesis
  proof (cases "\<lfloor>x\<rfloor> = \<lfloor>y\<rfloor>")
    case True
    then have "x - of_int \<lfloor>x\<rfloor> \<le> y - of_int \<lfloor>y\<rfloor>" using a by simp
    then show ?thesis using True by (auto simp add: rne_def Let_def)
  next
    case False
    then have "\<lfloor>x\<rfloor> + 1 \<le> \<lfloor>y\<rfloor>" using fl by simp
    then show ?thesis using rne_bounds(2) [of x] rne_bounds(1) [of y] by simp
  qed
qed

lemma rne_error: "\<bar>of_int (rne y) - y\<bar> \<le> 1 / 2"
proof -
  define r where "r = y - of_int \<lfloor>y\<rfloor>"
  have r: "0 \<le> r" "r < 1" unfolding r_def by linarith+
  have y: "y = of_int \<lfloor>y\<rfloor> + r" by (simp add: r_def)
  have "rne y = (if r < 1/2 then \<lfloor>y\<rfloor> else if 1/2 < r then \<lfloor>y\<rfloor> + 1
                 else if even \<lfloor>y\<rfloor> then \<lfloor>y\<rfloor> else \<lfloor>y\<rfloor> + 1)"
    by (simp add: rne_def Let_def r_def)
  then consider "rne y = \<lfloor>y\<rfloor>" "r \<le> 1/2" | "rne y = \<lfloor>y\<rfloor> + 1" "1/2 \<le> r"
    by (cases "r < 1/2"; cases "1/2 < r") (auto split: if_splits)
  then show ?thesis
  proof cases
    case 1
    then show ?thesis using r by (subst (2) y) simp
  next
    case 2
    then show ?thesis using r by (subst (2) y) simp
  qed
qed

subsection \<open>Rounding to a single\<close>

lemma ulp_pos [simp]: "0 < (2::real) powi ulp_exp x"
  by simp

text \<open>A multiple of the unit in the last place of \<open>x\<close> bounds the rounded \<open>x\<close> as it
  bounds \<open>x\<close>.\<close>

lemma round32_le_grid:
  assumes "x \<le> of_int n * 2 powi ulp_exp x"
  shows "round32 x \<le> of_int n * 2 powi ulp_exp x"
proof -
  have "x / 2 powi ulp_exp x \<le> of_int n" using assms by (simp add: field_simps)
  then have "rne (x / 2 powi ulp_exp x) \<le> n" by (rule rne_le_int)
  then have "(of_int (rne (x / 2 powi ulp_exp x)) :: real) \<le> of_int n" by simp
  then show ?thesis by (simp add: round32_def Let_def)
qed

lemma round32_ge_grid:
  assumes "of_int n * 2 powi ulp_exp x \<le> x"
  shows "of_int n * 2 powi ulp_exp x \<le> round32 x"
proof -
  have "of_int n \<le> x / 2 powi ulp_exp x" using assms by (simp add: field_simps)
  then have "n \<le> rne (x / 2 powi ulp_exp x)" by (rule rne_ge_int)
  then have "(of_int n :: real) \<le> of_int (rne (x / 2 powi ulp_exp x))" by simp
  then show ?thesis by (simp add: round32_def Let_def)
qed

lemma round32_0 [simp]: "round32 0 = 0"
  using rne_of_int [of 0] by (simp add: round32_def)

lemma round32_error: "\<bar>round32 x - x\<bar> \<le> 2 powi ulp_exp x / 2"
proof -
  let ?u = "(2::real) powi ulp_exp x"
  have "\<bar>of_int (rne (x / ?u)) - x / ?u\<bar> \<le> 1 / 2" by (rule rne_error)
  then have "\<bar>of_int (rne (x / ?u)) - x / ?u\<bar> * ?u \<le> 1 / 2 * ?u"
    by (intro mult_right_mono) simp_all
  moreover have "\<bar>of_int (rne (x / ?u)) - x / ?u\<bar> * ?u = \<bar>of_int (rne (x / ?u)) * ?u - x\<bar>"
    by (simp add: abs_mult_pos left_diff_distrib)
  ultimately show ?thesis by (simp add: round32_def Let_def)
qed

text \<open>A power of two \<open>2^k\<close> is a multiple of \<open>2^e\<close> when \<open>e \<le> k\<close>.\<close>

lemma powi_multiple: "e \<le> k \<Longrightarrow> (2::real) powi k = of_int (2 ^ nat (k - e)) * 2 powi e"
proof -
  assume "e \<le> k"
  then have "(2::real) powi k = 2 powi (k - e) * 2 powi e" by (simp flip: power_int_add)
  also have "(2::real) powi (k - e) = 2 ^ nat (k - e)" using \<open>e \<le> k\<close> by (simp add: power_int_def)
  finally show ?thesis by simp
qed


lemma round32_mono_pos:
  assumes "0 < x" "x \<le> y"
  shows "round32 x \<le> round32 y"
proof -
  have e: "ulp_exp x \<le> ulp_exp y" using assms by (intro ulp_exp_mono) simp_all
  show ?thesis
  proof (cases "ulp_exp x = ulp_exp y")
    case True
    have "x / 2 powi ulp_exp y \<le> y / 2 powi ulp_exp y"
      using assms by (simp add: divide_right_mono)
    then have "rne (x / 2 powi ulp_exp y) \<le> rne (y / 2 powi ulp_exp y)" by (rule rne_mono)
    then have "(of_int (rne (x / 2 powi ulp_exp y)) :: real) * 2 powi ulp_exp y
        \<le> of_int (rne (y / 2 powi ulp_exp y)) * 2 powi ulp_exp y"
      by (intro mult_right_mono) simp_all
    then show ?thesis by (simp add: round32_def Let_def True)
  next
    case False
    then have lt: "ulp_exp x < ulp_exp y" using e by simp
    have y: "0 < y" using assms by simp
    have ey: "ulp_exp y = flog2 y - 23"
      using lt y by (simp add: ulp_exp_def max_def split: if_splits)
    have "flog2 x - 23 \<le> ulp_exp x" using assms by (simp add: ulp_exp_def)
    then have fl: "flog2 x + 1 \<le> flog2 y" using lt ey by simp
    define B :: real where "B = 2 powi flog2 y"
    have "x < 2 powi (flog2 x + 1)" using flog2_bounds [OF assms(1)] by simp
    also have "\<dots> \<le> B" unfolding B_def using fl by (intro power_int_increasing) simp_all
    finally have xB: "x \<le> B" by simp
    have By: "B \<le> y" unfolding B_def using flog2_bounds [OF y] by simp
    have "ulp_exp x \<le> flog2 y" using lt ey by simp
    then have "B = of_int (2 ^ nat (flog2 y - ulp_exp x)) * 2 powi ulp_exp x"
      unfolding B_def by (rule powi_multiple)
    then have 1: "round32 x \<le> B" using round32_le_grid [of x "2 ^ nat (flog2 y - ulp_exp x)"] xB
      by simp
    have "ulp_exp y \<le> flog2 y" using ey by simp
    then have "B = of_int (2 ^ nat (flog2 y - ulp_exp y)) * 2 powi ulp_exp y"
      unfolding B_def by (rule powi_multiple)
    then have 2: "B \<le> round32 y" using round32_ge_grid [of "2 ^ nat (flog2 y - ulp_exp y)" y] By
      by simp
    show ?thesis using 1 2 by simp
  qed
qed

lemma round32_mono_neg:
  assumes "y < 0" "x \<le> y"
  shows "round32 x \<le> round32 y"
proof -
  have e: "ulp_exp y \<le> ulp_exp x" using assms by (intro ulp_exp_mono) simp_all
  show ?thesis
  proof (cases "ulp_exp x = ulp_exp y")
    case True
    have "x / 2 powi ulp_exp y \<le> y / 2 powi ulp_exp y"
      using assms by (simp add: divide_right_mono)
    then have "rne (x / 2 powi ulp_exp y) \<le> rne (y / 2 powi ulp_exp y)" by (rule rne_mono)
    then have "(of_int (rne (x / 2 powi ulp_exp y)) :: real) * 2 powi ulp_exp y
        \<le> of_int (rne (y / 2 powi ulp_exp y)) * 2 powi ulp_exp y"
      by (intro mult_right_mono) simp_all
    then show ?thesis by (simp add: round32_def Let_def True)
  next
    case False
    then have lt: "ulp_exp y < ulp_exp x" using e by simp
    have x: "0 < \<bar>x\<bar>" and ya: "0 < \<bar>y\<bar>" using assms by simp_all
    have ex: "ulp_exp x = flog2 \<bar>x\<bar> - 23"
      using lt by (simp add: ulp_exp_def max_def split: if_splits)
    have "flog2 \<bar>y\<bar> - 23 \<le> ulp_exp y" by (simp add: ulp_exp_def)
    then have fl: "flog2 \<bar>y\<bar> + 1 \<le> flog2 \<bar>x\<bar>" using lt ex by simp
    define B :: real where "B = 2 powi flog2 \<bar>x\<bar>"
    have "\<bar>y\<bar> < 2 powi (flog2 \<bar>y\<bar> + 1)" using flog2_bounds [OF ya] by simp
    also have "\<dots> \<le> B" unfolding B_def using fl by (intro power_int_increasing) simp_all
    finally have yB: "- B \<le> y" using assms by simp
    have "B \<le> \<bar>x\<bar>" unfolding B_def using flog2_bounds [OF x] by simp
    then have xB: "x \<le> - B" using assms by simp
    have "ulp_exp x \<le> flog2 \<bar>x\<bar>" using ex by simp
    then have "B = of_int (2 ^ nat (flog2 \<bar>x\<bar> - ulp_exp x)) * 2 powi ulp_exp x"
      unfolding B_def by (rule powi_multiple)
    then have "- B = of_int (- (2 ^ nat (flog2 \<bar>x\<bar> - ulp_exp x))) * 2 powi ulp_exp x" by simp
    then have 1: "round32 x \<le> - B"
      using round32_le_grid [of x "- (2 ^ nat (flog2 \<bar>x\<bar> - ulp_exp x))"] xB by simp
    have "ulp_exp y \<le> flog2 \<bar>x\<bar>" using lt ex by simp
    then have "B = of_int (2 ^ nat (flog2 \<bar>x\<bar> - ulp_exp y)) * 2 powi ulp_exp y"
      unfolding B_def by (rule powi_multiple)
    then have "- B = of_int (- (2 ^ nat (flog2 \<bar>x\<bar> - ulp_exp y))) * 2 powi ulp_exp y" by simp
    then have 2: "- B \<le> round32 y"
      using round32_ge_grid [of "- (2 ^ nat (flog2 \<bar>x\<bar> - ulp_exp y))" y] yB by simp
    show ?thesis using 1 2 by simp
  qed
qed

lemma round32_nonneg: "0 \<le> x \<Longrightarrow> 0 \<le> round32 x"
  using round32_ge_grid [of 0 x] by simp

lemma round32_nonpos: "x \<le> 0 \<Longrightarrow> round32 x \<le> 0"
  using round32_le_grid [of x 0] by simp

lemma round32_mono: "x \<le> y \<Longrightarrow> round32 x \<le> round32 y"
proof -
  assume a: "x \<le> y"
  consider "0 < x" | "y < 0" | "x \<le> 0" "0 \<le> y" by linarith
  then show ?thesis
  proof cases
    case 1 then show ?thesis using a by (rule round32_mono_pos)
  next
    case 2 then show ?thesis using a by (rule round32_mono_neg)
  next
    case 3 then show ?thesis using round32_nonneg [of y] round32_nonpos [of x] by simp
  qed
qed

lemma ulp_exp_small: "\<bar>x\<bar> < 2 ^ 24 \<Longrightarrow> ulp_exp x \<le> 0"
proof (cases "x = 0")
  case True
  then show ?thesis by (simp add: ulp_exp_def flog2.simps)
next
  case False
  assume "\<bar>x\<bar> < 2 ^ 24"
  then have "\<bar>x\<bar> < 2 powi 24" by simp
  then have "flog2 \<bar>x\<bar> < 24" using False by (intro flog2_less) simp_all
  then show ?thesis by (simp add: ulp_exp_def)
qed

lemma int_on_grid:
  "e \<le> 0 \<Longrightarrow> (of_int m :: real) = of_int (m * 2 ^ nat (- e)) * 2 powi e"
proof -
  assume "e \<le> 0"
  then have "(2::real) powi e = 1 / 2 ^ nat (- e)"
    by (simp add: power_int_def field_simps)
  then show ?thesis by simp
qed

lemma round32_le_int:
  assumes "\<bar>x\<bar> < 2 ^ 24" "x \<le> of_int m"
  shows "round32 x \<le> of_int m"
proof -
  define n where "n = m * 2 ^ nat (- ulp_exp x)"
  have g: "of_int n * 2 powi ulp_exp x = (of_int m :: real)"
    unfolding n_def by (rule int_on_grid [OF ulp_exp_small [OF assms(1)], symmetric])
  have "x \<le> of_int n * 2 powi ulp_exp x" using assms(2) by (simp only: g)
  then have "round32 x \<le> of_int n * 2 powi ulp_exp x" by (rule round32_le_grid)
  then show ?thesis by (simp only: g)
qed

lemma round32_ge_int:
  assumes "\<bar>x\<bar> < 2 ^ 24" "of_int m \<le> x"
  shows "of_int m \<le> round32 x"
proof -
  define n where "n = m * 2 ^ nat (- ulp_exp x)"
  have g: "of_int n * 2 powi ulp_exp x = (of_int m :: real)"
    unfolding n_def by (rule int_on_grid [OF ulp_exp_small [OF assms(1)], symmetric])
  have "of_int n * 2 powi ulp_exp x \<le> x" using assms(2) by (simp only: g)
  then have "of_int n * 2 powi ulp_exp x \<le> round32 x" by (rule round32_ge_grid)
  then show ?thesis by (simp only: g)
qed

lemma round32_of_int:
  assumes "\<bar>of_int m :: real\<bar> < 2 ^ 24"
  shows "round32 (of_int m) = of_int m"
  using round32_le_int [OF assms, of m] round32_ge_int [OF assms, of m] by simp

section \<open>The interpolation of the ramp in single precision\<close>

lemma fl_Some: "\<bar>x\<bar> < 2 ^ 24 \<Longrightarrow> fl x = Some (round32 x)"
proof -
  assume a: "\<bar>x\<bar> < 2 ^ 24"
  have "round32 x \<le> of_int (2 ^ 24)" using a by (intro round32_le_int) simp_all
  moreover have "of_int (- (2 ^ 24)) \<le> round32 x" using a by (intro round32_ge_int) simp_all
  ultimately have "\<bar>round32 x\<bar> \<le> 2 ^ 24" by simp
  also have "\<dots> < (2::real) ^ 128" by simp
  finally show ?thesis by (simp add: fl_def)
qed

lemma i2f_16: "i2f (w :: int16) = Some (of_int (sint w))"
proof -
  have "\<bar>sint w\<bar> \<le> 32768" using sint16_bounds [of w] by simp
  then have "real_of_int \<bar>sint w\<bar> \<le> real_of_int 32768" by (simp only: of_int_le_iff)
  then have a: "\<bar>of_int (sint w) :: real\<bar> < 2 ^ 24"
    by (simp del: of_int_sint)
  show ?thesis unfolding i2f_def by (simp only: fl_Some [OF a] round32_of_int [OF a])
qed

lemma ratio_bounds:
  assumes "0 \<le> e" "e \<le> d" "0 < d"
  shows "0 \<le> round32 (e / d)" "round32 (e / d) \<le> 1"
proof -
  have a: "0 \<le> e / d" "e / d \<le> 1" using assms by simp_all
  then have b: "\<bar>e / d\<bar> < 2 ^ 24" by simp
  show "0 \<le> round32 (e / d)" using a by (intro round32_nonneg)
  show "round32 (e / d) \<le> 1" using round32_le_int [OF b, of 1] a by simp
qed

lemma ramp32_between:
  assumes "0 \<le> e" "e \<le> d" "0 < d"
    and "\<bar>l1\<bar> \<le> 32768" "\<bar>l2\<bar> \<le> 32768"
  shows "min (of_int l1) (of_int l2) \<le> ramp32 (of_int l1) (of_int l2) e d"
    and "ramp32 (of_int l1) (of_int l2) e d \<le> max (of_int l1) (of_int l2)"
proof -
  let ?q = "round32 (e / d)"
  let ?p = "round32 (of_int (l2 - l1) * ?q)"
  note q = ratio_bounds [OF assms(1,2,3)]
  have dl: "\<bar>of_int (l2 - l1) :: real\<bar> \<le> 65536" using assms(4,5) by (simp flip: of_int_abs)
  have "\<bar>of_int (l2 - l1) * ?q\<bar> \<le> \<bar>of_int (l2 - l1)\<bar> * 1"
    unfolding abs_mult using q by (intro mult_left_mono) simp_all
  then have pq: "\<bar>of_int (l2 - l1) * ?q\<bar> < 2 ^ 24" using dl by simp
  have lo: "min 0 (of_int (l2 - l1)) \<le> ?p"
  proof (cases "l1 \<le> l2")
    case True
    then have "0 \<le> of_int (l2 - l1) * ?q" using q by simp
    then have "0 \<le> ?p" by (rule round32_nonneg)
    then show ?thesis using True by simp
  next
    case False
    then have "of_int (l2 - l1) * 1 \<le> of_int (l2 - l1) * ?q"
      using q by (intro mult_left_mono_neg) simp_all
    then have "of_int (l2 - l1) \<le> ?p" using round32_ge_int [OF pq, of "l2 - l1"] by simp
    then show ?thesis using False by simp
  qed
  have hi: "?p \<le> max 0 (of_int (l2 - l1))"
  proof (cases "l1 \<le> l2")
    case True
    then have "of_int (l2 - l1) * ?q \<le> of_int (l2 - l1) * 1"
      using q by (intro mult_left_mono) simp_all
    then have "?p \<le> of_int (l2 - l1)" using round32_le_int [OF pq, of "l2 - l1"] by simp
    then show ?thesis using True by simp
  next
    case False
    then have "of_int (l2 - l1) * ?q \<le> 0" using q by (simp add: mult_nonpos_nonneg)
    then have "?p \<le> 0" by (rule round32_nonpos)
    then show ?thesis using False by simp
  qed
  have s1: "of_int (min l1 l2) \<le> ?p + of_int l1" using lo by (simp add: min_def split: if_splits)
  have s2: "?p + of_int l1 \<le> of_int (max l1 l2)" using hi by (simp add: max_def split: if_splits)
  have "\<bar>?p + of_int l1\<bar> \<le> 32768"
    using s1 s2 assms(4,5) by (simp add: min_def max_def abs_if split: if_splits)
  then have b: "\<bar>?p + of_int l1\<bar> < 2 ^ 24" by simp
  have "of_int (min l1 l2) \<le> round32 (?p + of_int l1)" using s1 by (rule round32_ge_int [OF b])
  moreover have "(min (of_int l1) (of_int l2) :: real) = of_int (min l1 l2)"
    by (simp add: min_def)
  ultimately show "min (of_int l1) (of_int l2) \<le> ramp32 (of_int l1) (of_int l2) e d"
    by (simp add: ramp32_def)
  have "round32 (?p + of_int l1) \<le> of_int (max l1 l2)" using s2 by (rule round32_le_int [OF b])
  moreover have "(max (of_int l1) (of_int l2) :: real) = of_int (max l1 l2)"
    by (simp add: max_def)
  ultimately show "ramp32 (of_int l1) (of_int l2) e d \<le> max (of_int l1) (of_int l2)"
    by (simp add: ramp32_def)
qed


lemma ramp32_mono_up:
  assumes "l1 \<le> l2" "e \<le> e'" "0 < d"
  shows "ramp32 l1 l2 e d \<le> ramp32 l1 l2 e' d"
proof -
  have "e / d \<le> e' / d" using assms by (simp add: divide_right_mono)
  then have "round32 (e / d) \<le> round32 (e' / d)" by (rule round32_mono)
  then have "(l2 - l1) * round32 (e / d) \<le> (l2 - l1) * round32 (e' / d)"
    using assms(1) by (intro mult_left_mono) simp_all
  then have "round32 ((l2 - l1) * round32 (e / d)) \<le> round32 ((l2 - l1) * round32 (e' / d))"
    by (rule round32_mono)
  then show ?thesis unfolding ramp32_def by (intro round32_mono) simp
qed

lemma ramp32_mono_down:
  assumes "l2 \<le> l1" "e \<le> e'" "0 < d"
  shows "ramp32 l1 l2 e' d \<le> ramp32 l1 l2 e d"
proof -
  have "e / d \<le> e' / d" using assms by (simp add: divide_right_mono)
  then have "round32 (e / d) \<le> round32 (e' / d)" by (rule round32_mono)
  then have "(l2 - l1) * round32 (e' / d) \<le> (l2 - l1) * round32 (e / d)"
    using assms(1) by (intro mult_left_mono_neg) simp_all
  then have "round32 ((l2 - l1) * round32 (e' / d)) \<le> round32 ((l2 - l1) * round32 (e / d))"
    by (rule round32_mono)
  then show ?thesis unfolding ramp32_def by (intro round32_mono) simp
qed

lemma ramp32_start: "0 < d \<Longrightarrow> \<bar>l1\<bar> \<le> 32768 \<Longrightarrow> ramp32 (of_int l1) l2 0 d = of_int l1"
proof -
  assume "\<bar>l1\<bar> \<le> 32768"
  then have "real_of_int \<bar>l1\<bar> \<le> real_of_int 32768" by (simp only: of_int_le_iff)
  then have "\<bar>of_int l1 :: real\<bar> < 2 ^ 24" by simp
  then show ?thesis by (simp add: ramp32_def round32_of_int)
qed

lemma round32_error_pow:
  assumes "\<bar>x\<bar> < 2 powi k" "- 125 \<le> k"
  shows "\<bar>round32 x - x\<bar> \<le> 2 powi (k - 25)"
proof (cases "x = 0")
  case True
  then show ?thesis by simp
next
  case False
  then have "flog2 \<bar>x\<bar> < k" using assms(1) by (intro flog2_less) simp_all
  then have "ulp_exp x \<le> k - 24" using assms(2) by (simp add: ulp_exp_def)
  then have "(2::real) powi ulp_exp x \<le> 2 powi (k - 24)"
    by (intro power_int_increasing) simp_all
  moreover have "(2::real) powi (k - 24) / 2 = 2 powi (k - 25)"
    by (simp add: power_int_diff)
  ultimately show ?thesis using round32_error [of x] by simp
qed

text \<open>The interpolation in single precision is within \<open>2^-12\<close> of the exact one, for
  levels in \<open>[0, 1000]\<close>.\<close>

lemma ramp32_error:
  assumes "0 \<le> e" "e \<le> d" "0 < d"
    and "0 \<le> l1" "l1 \<le> 1000" "0 \<le> l2" "l2 \<le> 1000"
  shows "\<bar>ramp32 (of_int l1) (of_int l2) e d - ((of_int l2 - of_int l1) * (e / d) + of_int l1)\<bar>
         \<le> 1 / 4096"
proof -
  let ?dl = "of_int l2 - of_int l1 :: real"
  let ?q = "round32 (e / d)"
  let ?p = "round32 (?dl * ?q)"
  note q = ratio_bounds [OF assms(1,2,3)]
  have dl: "\<bar>?dl\<bar> \<le> 1000" using assms(4-7) by simp
  have "0 \<le> e / d" "e / d \<le> 1" using assms(1,2,3) by simp_all
  then have "\<bar>e / d\<bar> < 2 powi 1" by simp
  then have e1: "\<bar>?q - e / d\<bar> \<le> 2 powi (- 24)"
    using round32_error_pow [of "e / d" 1] by simp
  have "\<bar>?dl * ?q\<bar> \<le> 1000 * 1"
    unfolding abs_mult using q dl by (intro mult_mono) simp_all
  then have "\<bar>?dl * ?q\<bar> < 2 powi 10" by simp
  then have e2: "\<bar>?p - ?dl * ?q\<bar> \<le> 2 powi (- 15)"
    using round32_error_pow [of "?dl * ?q" 10] by simp
  have b: "min (of_int l1) (of_int l2) \<le> ramp32 (of_int l1) (of_int l2) e d"
      "ramp32 (of_int l1) (of_int l2) e d \<le> max (of_int l1) (of_int l2)"
    using assms by (intro ramp32_between; simp)+
  have "\<bar>?p - ?dl * ?q\<bar> \<le> 1" using e2 by (simp add: power_int_minus)
  then have "\<bar>?p\<bar> \<le> 1001" using \<open>\<bar>?dl * ?q\<bar> \<le> 1000 * 1\<close> by linarith
  then have "\<bar>?p + of_int l1\<bar> < 2 powi 11" using assms(4,5) by simp
  then have e3: "\<bar>round32 (?p + of_int l1) - (?p + of_int l1)\<bar> \<le> 2 powi (- 14)"
    using round32_error_pow [of "?p + of_int l1" 11] by simp
  have "\<bar>?dl * ?q - ?dl * (e / d)\<bar> = \<bar>?dl\<bar> * \<bar>?q - e / d\<bar>"
    by (simp add: abs_mult [symmetric] right_diff_distrib del: abs_mult)
  also have "\<dots> \<le> 1000 * 2 powi (- 24)" using dl e1 by (intro mult_mono) simp_all
  finally have e1': "\<bar>?dl * ?q - ?dl * (e / d)\<bar> \<le> 1000 * 2 powi (- 24)" .
  have "\<bar>ramp32 (of_int l1) (of_int l2) e d - (?dl * (e / d) + of_int l1)\<bar>
        \<le> 2 powi (- 14) + 2 powi (- 15) + 1000 * 2 powi (- 24)"
    unfolding ramp32_def using e1' e2 e3 by linarith
  also have "\<dots> \<le> 1 / 4096" by (simp add: power_int_minus)
  finally show ?thesis .
qed

section \<open>The drive curve is defined on every level\<close>

lemma round32_le_pow2:
  assumes "0 \<le> x" "x \<le> 2 powi k" "- 149 \<le> k"
  shows "round32 x \<le> 2 powi k"
proof (cases "x = 0")
  case True
  then show ?thesis by simp
next
  case False
  then have x: "0 < x" using assms(1) by simp
  have "x < 2 powi (k + 1)"
    using assms(2) power_int_strict_increasing [of k "k + 1" "2::real"] by simp
  then have "flog2 x < k + 1" using x by (intro flog2_less)
  then have e: "ulp_exp x \<le> k" using assms(3) x by (simp add: ulp_exp_def)
  have "x \<le> of_int (2 ^ nat (k - ulp_exp x)) * 2 powi ulp_exp x"
    using assms(2) powi_multiple [OF e] by simp
  then have "round32 x \<le> of_int (2 ^ nat (k - ulp_exp x)) * 2 powi ulp_exp x"
    by (rule round32_le_grid)
  then show ?thesis using powi_multiple [OF e] by simp
qed

text \<open>A non-negative value below \<open>2^k\<close> rounds to a finite single below \<open>2^k\<close>.\<close>

lemma fl_bounded:
  assumes "0 \<le> x" "x \<le> 2 powi k" "- 149 \<le> k" "k \<le> 127"
  shows "\<exists>z. fl x = Some z \<and> 0 \<le> z \<and> z \<le> 2 powi k"
proof -
  have 1: "0 \<le> round32 x" using assms(1) by (rule round32_nonneg)
  have 2: "round32 x \<le> 2 powi k" using assms(1,2,3) by (rule round32_le_pow2)
  have "(2::real) powi k \<le> 2 powi 127" using assms(4) by (intro power_int_increasing) simp_all
  also have "\<dots> < 2 ^ 128" by simp
  finally have "\<bar>round32 x\<bar> < 2 ^ 128" using 1 2 by simp
  then show ?thesis using 1 2 by (simp add: fl_def)
qed

lemma fmul_bounded:
  assumes "a = Some x" "0 \<le> x" "x \<le> 2 powi i" "b = Some y" "0 \<le> y" "y \<le> 2 powi j"
    and "- 149 \<le> i + j" "i + j \<le> 127"
  shows "\<exists>z. fmul a b = Some z \<and> 0 \<le> z \<and> z \<le> 2 powi (i + j)"
proof -
  have "x * y \<le> 2 powi i * 2 powi j" using assms by (intro mult_mono) simp_all
  then have "x * y \<le> 2 powi (i + j)" by (simp add: power_int_add)
  moreover have "0 \<le> x * y" using assms by simp
  ultimately show ?thesis using fl_bounded [of "x * y" "i + j"] assms by (simp add: fmul_def)
qed

text \<open>Sums are bounded by integers.\<close>

lemma fadd_bounded:
  assumes "a = Some x" "0 \<le> x" "x \<le> of_int m" "b = Some y" "0 \<le> y" "y \<le> of_int n"
    and "m + n \<le> 32767"
  shows "\<exists>z. fadd a b = Some z \<and> 0 \<le> z \<and> z \<le> of_int (m + n)"
proof -
  have s: "0 \<le> x + y" "x + y \<le> of_int (m + n)" using assms by simp_all
  have "real_of_int (m + n) \<le> real_of_int 32767" using assms(7) by (simp only: of_int_le_iff)
  then have b: "\<bar>x + y\<bar> < 2 ^ 24" using s by simp
  have 1: "0 \<le> round32 (x + y)" using s(1) by (rule round32_nonneg)
  have 2: "round32 (x + y) \<le> of_int (m + n)" using s(2) by (rule round32_le_int [OF b])
  have "\<bar>round32 (x + y)\<bar> < 2 ^ 128"
    using 1 2 \<open>real_of_int (m + n) \<le> real_of_int 32767\<close> by simp
  then show ?thesis using 1 2 assms(1,4) by (simp add: fadd_def fl_def)
qed

lemma u2f_bounded:
  assumes "uint w \<le> 2 ^ n" "n \<le> 32"
  shows "\<exists>z. u2f w = Some z \<and> 0 \<le> z \<and> z \<le> 2 powi (int n)"
proof -
  have "real_of_int (uint w) \<le> real_of_int (2 ^ n)" using assms(1) by (simp only: of_int_le_iff)
  then have "real_of_int (uint w) \<le> 2 powi (int n)" by simp
  moreover have "0 \<le> real_of_int (uint w)" by (simp only: of_int_0_le_iff uint_ge_0)
  ultimately show ?thesis
    unfolding u2f_def using assms(2) by (intro fl_bounded) simp_all
qed

lemma lit_bounded:
  assumes "0 \<le> c" "c \<le> 2 powi k" "- 149 \<le> k" "k \<le> 127"
  shows "\<exists>z. lit c = Some z \<and> 0 \<le> z \<and> z \<le> 2 powi k"
  unfolding lit_def using assms by (rule fl_bounded)

lemma uint_mult_le: "uint (a * b :: 'a::len word) \<le> uint a * uint b"
proof -
  have "uint (a * b) = (uint a * uint b) mod 2 ^ LENGTH('a)" by (simp add: uint_word_ariths)
  also have "\<dots> \<le> uint a * uint b" by (intro zmod_le_nonneg_dividend) simp
  finally show ?thesis .
qed

lemma level_powers:
  fixes level :: long32
  assumes "level \<le> 500"
  shows "uint level \<le> 2 ^ 9" "uint (level * level) \<le> 2 ^ 18" "uint (level * level * level) \<le> 2 ^ 27"
proof -
  have l: "uint level \<le> 500" using assms by (simp add: word_le_def)
  then show "uint level \<le> 2 ^ 9" by simp
  have "uint level * uint level \<le> 500 * 500" using l by (intro mult_mono) simp_all
  then have l2: "uint (level * level) \<le> 250000" using uint_mult_le [of level level] by simp
  then show "uint (level * level) \<le> 2 ^ 18" by simp
  have "uint (level * level) * uint level \<le> 250000 * 500" using l l2 by (intro mult_mono) simp_all
  then have "uint (level * level * level) \<le> 125000000"
    using uint_mult_le [of "level * level" level] by simp
  then show "uint (level * level * level) \<le> 2 ^ 27" by simp
qed


lemma drive_low_bounded:
  assumes "level \<le> 500"
  shows "\<exists>z. drive_low level = Some z \<and> 0 \<le> z \<and> z \<le> 404"
proof -
  note p = level_powers [OF assms]
  obtain c3 where c3: "lit (633 / 10 ^ 9) = Some c3" "0 \<le> c3" "c3 \<le> 2 powi (- 20)"
    using lit_bounded [of "633 / 10 ^ 9" "- 20"] by (auto simp add: power_int_minus field_simps)
  obtain c2 where c2: "lit (632 / 10 ^ 6) = Some c2" "0 \<le> c2" "c2 \<le> 2 powi (- 10)"
    using lit_bounded [of "632 / 10 ^ 6" "- 10"] by (auto simp add: power_int_minus field_simps)
  obtain c1 where c1: "lit (285 / 10 ^ 4) = Some c1" "0 \<le> c1" "c1 \<le> 2 powi (- 5)"
    using lit_bounded [of "285 / 10 ^ 4" "- 5"] by (auto simp add: power_int_minus field_simps)
  obtain c0 where c0: "lit (398 / 100) = Some c0" "0 \<le> c0" "c0 \<le> 2 powi 2"
    using lit_bounded [of "398 / 100" 2] by auto
  obtain x3 where x3: "u2f (level * level * level) = Some x3" "0 \<le> x3" "x3 \<le> 2 powi 27"
    using u2f_bounded [OF p(3)] by auto
  obtain x2 where x2: "u2f (level * level) = Some x2" "0 \<le> x2" "x2 \<le> 2 powi 18"
    using u2f_bounded [OF p(2)] by auto
  obtain x1 where x1: "u2f level = Some x1" "0 \<le> x1" "x1 \<le> 2 powi 9"
    using u2f_bounded [OF p(1)] by auto
  obtain t3 where t3: "fmul (lit (633 / 10 ^ 9)) (u2f (level * level * level)) = Some t3"
      "0 \<le> t3" "t3 \<le> of_int 128"
    using fmul_bounded [OF c3 x3] by auto
  obtain t2 where t2: "fmul (lit (632 / 10 ^ 6)) (u2f (level * level)) = Some t2"
      "0 \<le> t2" "t2 \<le> of_int 256"
    using fmul_bounded [OF c2 x2] by auto
  obtain t1 where t1: "fmul (lit (285 / 10 ^ 4)) (u2f level) = Some t1"
      "0 \<le> t1" "t1 \<le> of_int 16"
    using fmul_bounded [OF c1 x1] by auto
  have c0': "c0 \<le> of_int 4" using c0(3) by simp
  obtain a1 where a1: "fadd (Some t3) (Some t2) = Some a1" "0 \<le> a1" "a1 \<le> of_int (128 + 256)"
    using fadd_bounded [OF refl t3(2,3) refl t2(2,3)] by auto
  obtain a2 where a2: "fadd (Some a1) (Some t1) = Some a2" "0 \<le> a2" "a2 \<le> of_int (128 + 256 + 16)"
    using fadd_bounded [OF refl a1(2,3) refl t1(2,3)] by auto
  obtain a3 where a3: "fadd (Some a2) (Some c0) = Some a3" "0 \<le> a3" "a3 \<le> of_int (128 + 256 + 16 + 4)"
    using fadd_bounded [OF refl a2(2,3) refl c0(2) c0'] by auto
  show ?thesis
    unfolding drive_low_def t3(1) t2(1) t1(1) c0(1) a1(1) a2(1) using a3 by simp
qed

lemma drive_high_bounded:
  assumes "level \<le> 500"
  shows "\<exists>z. drive_high level = Some z \<and> 0 \<le> z \<and> z \<le> 384"
proof -
  note p = level_powers [OF assms]
  obtain c3 where c3: "lit (52 / 10 ^ 8) = Some c3" "0 \<le> c3" "c3 \<le> 2 powi (- 20)"
    using lit_bounded [of "52 / 10 ^ 8" "- 20"] by (auto simp add: power_int_minus field_simps)
  obtain c2 where c2: "lit (365 / 10 ^ 6) = Some c2" "0 \<le> c2" "c2 \<le> 2 powi (- 11)"
    using lit_bounded [of "365 / 10 ^ 6" "- 11"] by (auto simp add: power_int_minus field_simps)
  obtain c1 where c1: "lit (108 / 1000) = Some c1" "0 \<le> c1" "c1 \<le> 2 powi (- 3)"
    using lit_bounded [of "108 / 1000" "- 3"] by (auto simp add: power_int_minus field_simps)
  obtain c0 where c0: "lit (448 / 10) = Some c0" "0 \<le> c0" "c0 \<le> 2 powi 6"
    using lit_bounded [of "448 / 10" 6] by auto
  obtain x3 where x3: "u2f (level * level * level) = Some x3" "0 \<le> x3" "x3 \<le> 2 powi 27"
    using u2f_bounded [OF p(3)] by auto
  obtain x2 where x2: "u2f (level * level) = Some x2" "0 \<le> x2" "x2 \<le> 2 powi 18"
    using u2f_bounded [OF p(2)] by auto
  obtain x1 where x1: "u2f level = Some x1" "0 \<le> x1" "x1 \<le> 2 powi 9"
    using u2f_bounded [OF p(1)] by auto
  obtain t3 where t3: "fmul (lit (52 / 10 ^ 8)) (u2f (level * level * level)) = Some t3"
      "0 \<le> t3" "t3 \<le> of_int 128"
    using fmul_bounded [OF c3 x3] by auto
  obtain t2 where t2: "fmul (lit (365 / 10 ^ 6)) (u2f (level * level)) = Some t2"
      "0 \<le> t2" "t2 \<le> of_int 128"
    using fmul_bounded [OF c2 x2] by auto
  obtain t1 where t1: "fmul (lit (108 / 1000)) (u2f level) = Some t1"
      "0 \<le> t1" "t1 \<le> of_int 64"
    using fmul_bounded [OF c1 x1] by auto
  have c0': "c0 \<le> of_int 64" using c0(3) by simp
  obtain a1 where a1: "fadd (Some t3) (Some t2) = Some a1" "0 \<le> a1" "a1 \<le> of_int (128 + 128)"
    using fadd_bounded [OF refl t3(2,3) refl t2(2,3)] by auto
  obtain a2 where a2: "fadd (Some a1) (Some t1) = Some a2" "0 \<le> a2" "a2 \<le> of_int (128 + 128 + 64)"
    using fadd_bounded [OF refl a1(2,3) refl t1(2,3)] by auto
  obtain a3 where a3: "fadd (Some a2) (Some c0) = Some a3" "0 \<le> a3" "a3 \<le> of_int (128 + 128 + 64 + 64)"
    using fadd_bounded [OF refl a2(2,3) refl c0(2) c0'] by auto
  show ?thesis
    unfolding drive_high_def t3(1) t2(1) t1(1) c0(1) a1(1) a2(1) using a3 by simp
qed

lemma f2i_bounded:
  assumes "0 \<le> z" "z \<le> of_int n" "n \<le> 32767"
  shows "\<exists>v. f2i (Some z) = Some v"
proof -
  have "real_of_int n \<le> real_of_int 32767" using assms(3) by (simp only: of_int_le_iff)
  then have "z < 32768" using assms(2) by simp
  then show ?thesis using assms(1) by (simp add: f2i_def Let_def)
qed

text \<open>For every level up to 1000 the conversion of the drive value is defined.\<close>

lemma light_writes_defined:
  assumes "level \<le> 1000"
  shows "\<exists>w. light_writes level = Some w"
proof (cases "level \<le> 500")
  case True
  obtain z where z: "drive_low level = Some z" "0 \<le> z" "z \<le> of_int 404"
    using drive_low_bounded [OF True] by auto
  obtain v where "f2i (Some z) = Some v" using f2i_bounded [OF z(2,3)] by auto
  then show ?thesis using True by (simp add: light_writes_def z(1))
next
  case False
  have "level - 500 \<le> 500" using assms False by unat_arith
  then obtain z where z: "drive_high (level - 500) = Some z" "0 \<le> z" "z \<le> of_int 384"
    using drive_high_bounded [of "level - 500"] by auto
  obtain v where "f2i (Some z) = Some v" using f2i_bounded [OF z(2,3)] by auto
  moreover have "level \<noteq> 0" using False by auto
  ultimately show ?thesis using False by (simp add: light_writes_def z(1))
qed

section \<open>The light ramp\<close>

declare of_int_sint [simp del]

lemma floor_in_range:
  assumes "of_int a \<le> (x::real)" "x \<le> of_int b"
  shows "a \<le> \<lfloor>x\<rfloor>" "\<lfloor>x\<rfloor> \<le> b"
  using assms by (simp_all add: le_floor_iff floor_le_iff)

lemma get_light_level_ramp:
  assumes f: "start_light_level t = L1" "end_light_level t = L2"
      "change_duration t = of_nat D" "change_done t = of_nat k"
    and k: "k < D" "D \<le> 32767"
    and l: "0 \<le> sint L1" "sint L1 \<le> 1000" "0 \<le> sint L2" "sint L2 \<le> 1000"
  shows "get_light_level t =
           Some (word_of_int \<lfloor>ramp32 (of_int (sint L1)) (of_int (sint L2)) (of_nat k) (of_nat D)\<rfloor>)"
    and "sint (word_of_int \<lfloor>ramp32 (of_int (sint L1)) (of_int (sint L2)) (of_nat k) (of_nat D)\<rfloor> :: int16)
           = \<lfloor>ramp32 (of_int (sint L1)) (of_int (sint L2)) (of_nat k) (of_nat D)\<rfloor>"
proof -
  let ?l1 = "real_of_int (sint L1)" and ?l2 = "real_of_int (sint L2)"
  let ?q = "round32 (real k / real D)"
  let ?p = "round32 ((?l2 - ?l1) * ?q)"
  let ?r = "ramp32 ?l1 ?l2 (real k) (real D)"
  have sk: "sint (of_nat k :: int16) = int k" and sD: "sint (of_nat D :: int16) = int D"
    using k by (simp_all add: sint_of_nat_16)
  have nle: "\<not> change_duration t \<le>s change_done t"
    using k by (simp add: f word_sle_eq sk sD)
  have dl: "sint (L2 - L1) = sint L2 - sint L1" using l by (intro sint16_diff) simp_all
  have kd: "0 \<le> real k" "real k \<le> real D" "0 < real D" using k by simp_all
  note q = ratio_bounds [OF kd]
  have 1: "fdiv (Some (real k)) (Some (real D)) = Some ?q"
  proof -
    have "\<bar>real k / real D\<bar> < 2 ^ 24" using kd by (simp add: field_simps)
    then show ?thesis using kd by (simp add: fdiv_def fl_Some)
  qed
  have dlb: "\<bar>?l2 - ?l1\<bar> \<le> 1000" using l by simp
  have 2: "fmul (Some (?l2 - ?l1)) (Some ?q) = Some ?p"
  proof -
    have "\<bar>(?l2 - ?l1) * ?q\<bar> \<le> 1000 * 1"
      unfolding abs_mult using q dlb by (intro mult_mono) simp_all
    then have "\<bar>(?l2 - ?l1) * ?q\<bar> < 2 ^ 24" by simp
    then show ?thesis by (simp add: fmul_def fl_Some)
  qed
  have b: "min ?l1 ?l2 \<le> ?r" "?r \<le> max ?l1 ?l2"
    using l by (intro ramp32_between [OF kd]; simp)+
  have r0: "0 \<le> ?r" "?r \<le> 1000" using b l by (simp_all add: min_def max_def split: if_splits)
  have 3: "fadd (Some ?p) (Some ?l1) = Some ?r"
  proof -
    have "\<bar>?r\<bar> < 2 ^ 128" using r0 by simp
    then show ?thesis by (simp add: fadd_def fl_def ramp32_def Let_def)
  qed
  have fr: "0 \<le> \<lfloor>?r\<rfloor>" "\<lfloor>?r\<rfloor> \<le> 1000"
    using floor_in_range [of 0 ?r 1000] r0 by simp_all
  then have 4: "f2i (Some ?r) = Some (word_of_int \<lfloor>?r\<rfloor>)"
    using r0 by (simp add: f2i_def Let_def)
  show "get_light_level t = Some (word_of_int \<lfloor>?r\<rfloor>)"
    unfolding get_light_level_def using nle
    by (simp add: f i2f_16 dl sk sD 1 2 3 4)
  show "sint (word_of_int \<lfloor>?r\<rfloor> :: int16) = \<lfloor>?r\<rfloor>"
    using fr by (intro sint16_in_range) simp_all
qed


lemma scast_level:
  assumes "0 \<le> sint (l :: int16)" "sint l \<le> 1000"
  shows "(scast l :: long32) \<le> 1000"
proof -
  have "uint (word_of_int (sint l) :: long32) = sint l"
    using assms by (simp add: uint_word_of_int take_bit_int_eq_self)
  then show ?thesis using assms by (simp add: word_le_def scast_eq)
qed

lemma set_light_level_defined:
  assumes "0 \<le> sint (l :: int16)" "sint l \<le> 1000"
  shows "\<exists>w. set_light_level (scast l) t = Some (t\<lparr>hw := hw t @ w\<rparr>)"
  using light_writes_defined [OF scast_level [OF assms]] by (auto simp add: set_light_level_def)

text \<open>A tick of a ramp that is not complete writes the light and counts.\<close>

lemma adjust_light_ramp:
  assumes f: "start_light_level t = L1" "end_light_level t = L2"
      "change_duration t = of_nat D" "change_done t = of_nat j"
    and j: "j \<le> D" "D < 32767"
    and l: "0 \<le> sint L1" "sint L1 \<le> 1000" "0 \<le> sint L2" "sint L2 \<le> 1000"
    and c: "0 \<le> sint (safe_light_level t)" "sint (safe_light_level t) \<le> 1000"
  shows "\<exists>h. adjust_light t = Some (t\<lparr>hw := h, change_done := of_nat (Suc j)\<rparr>)"
proof -
  have sj: "sint (of_nat j :: int16) = int j" and sD: "sint (of_nat D :: int16) = int D"
    using j by (simp_all add: sint_of_nat_16)
  have le: "change_done t \<le>s change_duration t" using j by (simp add: f word_sle_eq sj sD)
  obtain r where r: "get_light_level t = Some r" "0 \<le> sint r" "sint r \<le> 1000"
  proof (cases "j < D")
    case True
    let ?r = "ramp32 (of_int (sint L1)) (of_int (sint L2)) (of_nat j) (of_nat D)"
    have D: "D \<le> 32767" using j by simp
    note g = get_light_level_ramp [OF f True D l]
    have kd: "0 \<le> real j" "real j \<le> real D" "0 < real D" using True by simp_all
    have "min (real_of_int (sint L1)) (real_of_int (sint L2)) \<le> ?r"
        "?r \<le> max (real_of_int (sint L1)) (real_of_int (sint L2))"
      using l by (intro ramp32_between [OF kd]; simp)+
    then have "of_int 0 \<le> ?r" "?r \<le> of_int 1000"
      using l by (simp_all add: min_def max_def split: if_splits)
    then have "0 \<le> \<lfloor>?r\<rfloor>" "\<lfloor>?r\<rfloor> \<le> 1000" by (rule floor_in_range)+
    then show ?thesis using that [of "word_of_int \<lfloor>?r\<rfloor>"] g by simp
  next
    case False
    then have "j = D" using j by simp
    then have "get_light_level t = Some L2" by (simp add: get_light_level_def f)
    then show ?thesis using that [of L2] l by simp
  qed
  obtain v where v: "get_safe_light_level t = Some v" "0 \<le> sint v" "sint v \<le> 1000"
    using r c by (cases "safe_light_level t <s r") (simp_all add: get_safe_light_level_def)
  obtain w where "set_light_level (scast v) t = Some (t\<lparr>hw := hw t @ w\<rparr>)"
    using set_light_level_defined [OF v(2,3)] by auto
  then have "adjust_light t = Some (t\<lparr>hw := hw t @ w, change_done := of_nat j + 1\<rparr>)"
    using le by (simp add: adjust_light_def v(1) f)
  then have "adjust_light t = Some (t\<lparr>hw := hw t @ w, change_done := of_nat (Suc j)\<rparr>)"
    by (simp add: add.commute)
  then show ?thesis by blast
qed

lemma adjust_light_done:
  assumes "change_duration t = of_nat D" "change_done t = of_nat (Suc D)" "D < 32767"
  shows "adjust_light t = Some t"
proof -
  have "sint (of_nat (Suc D) :: int16) = int (Suc D)" and "sint (of_nat D :: int16) = int D"
    using assms(3) by (simp_all add: sint_of_nat_16 del: of_nat_Suc)
  then have "\<not> change_done t \<le>s change_duration t"
    by (simp add: assms(1,2) word_sle_eq del: of_nat_Suc)
  then show ?thesis by (simp add: adjust_light_def)
qed


lemma light_ticks_ramp:
  assumes f: "start_light_level t = L1" "end_light_level t = L2"
      "change_duration t = of_nat D" "change_done t = of_nat j"
    and j: "j \<le> Suc D" "D < 32767"
    and l: "0 \<le> sint L1" "sint L1 \<le> 1000" "0 \<le> sint L2" "sint L2 \<le> 1000"
    and c: "0 \<le> sint (safe_light_level t)" "sint (safe_light_level t) \<le> 1000"
  shows "\<exists>h. light_ticks k t = Some (t\<lparr>hw := h, change_done := of_nat (min (j + k) (Suc D))\<rparr>)"
  using f j(1) c
proof (induction k arbitrary: t j)
  case 0
  then have "t = t\<lparr>hw := hw t, change_done := of_nat (min (j + 0) (Suc D))\<rparr>" by simp
  then show ?case by (metis light_ticks.simps(1))
next
  case (Suc k)
  note g = Suc.prems(1,2,3)
  show ?case
  proof (cases "j \<le> D")
    case True
    obtain h where h: "adjust_light t = Some (t\<lparr>hw := h, change_done := of_nat (Suc j)\<rparr>)"
      using adjust_light_ramp [OF g Suc.prems(4) True j(2) l Suc.prems(6,7)] by auto
    let ?t = "t\<lparr>hw := h, change_done := of_nat (Suc j)\<rparr>"
    have "\<exists>h'. light_ticks k ?t = Some (?t\<lparr>hw := h', change_done := of_nat (min (Suc j + k) (Suc D))\<rparr>)"
      using True Suc.prems(6,7) by (intro Suc.IH) (simp_all add: g)
    then show ?thesis using h by auto
  next
    case False
    then have jD: "j = Suc D" using Suc.prems(5) by simp
    have a: "adjust_light t = Some t"
      using adjust_light_done [OF g(3) _ j(2)] Suc.prems(4) jD by simp
    have "\<exists>h'. light_ticks k t = Some (t\<lparr>hw := h', change_done := of_nat (min (j + k) (Suc D))\<rparr>)"
      using Suc.prems by (intro Suc.IH) simp_all
    then show ?thesis using a jD by auto
  qed
qed

lemma ticks_of_time:
  assumes "0 < sint ms" "int D * sint ms \<le> 32767"
  shows "c_div (of_nat D * ms) ms = (of_nat D :: int16)"
proof -
  have "sint (of_nat D * ms) = int D * sint ms" using assms by (rule held_value)
  moreover have "(int D * sint ms) sdiv sint ms = int D"
    using assms(1) by (simp add: signed_divide_int_def sgn_if abs_mult)
  ultimately show ?thesis by (simp add: c_div_def)
qed

lemma level_at_tick:
  assumes f: "start_light_level t = L1" "end_light_level t = L2"
      "change_duration t = of_nat D" "change_done t = of_nat (min k (Suc D))"
    and D: "D < 32767"
    and l: "0 \<le> sint L1" "sint L1 \<le> 1000" "0 \<le> sint L2" "sint L2 \<le> 1000"
  shows "get_light_level t =
    (if k < D
     then Some (word_of_int \<lfloor>ramp32 (of_int (sint L1)) (of_int (sint L2)) (of_nat k) (of_nat D)\<rfloor>)
     else Some L2)"
proof (cases "k < D")
  case True
  then have "change_done t = of_nat k" using f(4) by (simp add: min_def)
  then show ?thesis using get_light_level_ramp(1) [OF f(1,2,3) _ True _ l] D True by simp
next
  case False
  have "sint (of_nat (min k (Suc D)) :: int16) = int (min k (Suc D))"
    using D by (intro sint_of_nat_16) simp
  moreover have "sint (of_nat D :: int16) = int D" using D by (intro sint_of_nat_16) simp
  ultimately have "change_duration t \<le>s change_done t"
    using False by (simp add: f word_sle_eq min_def)
  then show ?thesis using False by (simp add: get_light_level_def f)
qed


text \<open>
  C3, as amended. Levels \<open>L1\<close>, \<open>L2\<close> in \<open>[0, 1000]\<close>, a duration of \<open>D\<close> ticks with
  \<open>0 < D < 32767\<close>, \<open>ms_delay > 0\<close> and \<open>D * ms_delay \<le> 32767\<close> (the tick counter and the
  time are 16-bit \<open>int\<close>s), a thermal ceiling in \<open>[0, 1000]\<close>. After
  \<open>set_light L1 L2 (D * ms_delay)\<close>, \<open>get_light_level\<close> is \<open>L1\<close> before the first tick;
  after \<open>k < D\<close> ticks it lies between \<open>L1\<close> and \<open>L2\<close> and is the interpolation
  \<open>(L2 - L1) * (k / D) + L1\<close> evaluated in single precision (\<open>ramp32\<close>) and truncated, which is
  within \<open>2^-12\<close> of the exact value before the truncation (so it is the exact value
  truncated, or one next to it); it is monotonic in the number of ticks, from \<open>L1\<close>
  towards \<open>L2\<close>; and after \<open>D\<close> ticks or more it is \<open>L2\<close> for good.
\<close>

theorem ramp_levels:
  fixes s :: hexbright and L1 L2 :: int16 and D :: nat
  assumes l: "0 \<le> sint L1" "sint L1 \<le> 1000" "0 \<le> sint L2" "sint L2 \<le> 1000"
    and d: "0 < D" "D < 32767" "0 < sint (ms_delay s)" "int D * sint (ms_delay s) \<le> 32767"
    and c: "0 \<le> sint (safe_light_level s)" "sint (safe_light_level s) \<le> 1000"
  shows "\<exists>s0. set_light L1 L2 (of_nat D * ms_delay s) s = Some s0 \<and>
     ramp_level 0 s0 = Some L1 \<and>
     (\<forall>k<D. \<exists>r. ramp_level k s0 = Some r \<and>
        sint r = \<lfloor>ramp32 (of_int (sint L1)) (of_int (sint L2)) (real k) (real D)\<rfloor> \<and>
        min (sint L1) (sint L2) \<le> sint r \<and> sint r \<le> max (sint L1) (sint L2) \<and>
        real_of_int (sint r)
          \<le> (of_int (sint L2) - of_int (sint L1)) * (real k / real D) + of_int (sint L1) + 1 / 4096 \<and>
        (of_int (sint L2) - of_int (sint L1)) * (real k / real D) + of_int (sint L1) - 1 / 4096
          < real_of_int (sint r) + 1) \<and>
     (\<forall>k\<ge>D. ramp_level k s0 = Some L2) \<and>
     (\<forall>j k rj rk. j \<le> k \<and> ramp_level j s0 = Some rj \<and> ramp_level k s0 = Some rk \<longrightarrow>
        (sint L1 \<le> sint L2 \<longrightarrow> sint rj \<le> sint rk) \<and>
        (sint L2 \<le> sint L1 \<longrightarrow> sint rk \<le> sint rj))"
proof -
  define s0 where "s0 = s\<lparr>start_light_level := L1, end_light_level := L2,
     change_duration := of_nat D, change_done := 0\<rparr>"
  let ?l1 = "real_of_int (sint L1)" and ?l2 = "real_of_int (sint L2)"
  define R where "R k = ramp32 ?l1 ?l2 (real k) (real D)" for k
  define lev :: "nat \<Rightarrow> int16" where "lev k = (if k < D then word_of_int \<lfloor>R k\<rfloor> else L2)" for k
  have "L1 \<noteq> - 1" using l(1) by auto
  then have set: "set_light L1 L2 (of_nat D * ms_delay s) s = Some s0"
    by (simp add: set_light_def s0_def ticks_of_time [OF d(3,4)])
  have f: "start_light_level s0 = L1" "end_light_level s0 = L2"
    "change_duration s0 = of_nat D" "change_done s0 = of_nat 0"
    "safe_light_level s0 = safe_light_level s"
    by (simp_all add: s0_def)
  have level: "ramp_level k s0 = Some (lev k)" for k
  proof -
    obtain h where h: "light_ticks k s0 = Some (s0\<lparr>hw := h, change_done := of_nat (min (0 + k) (Suc D))\<rparr>)"
      using light_ticks_ramp [OF f(1,2,3,4) _ d(2) l, of k] c by (auto simp add: f(5))
    let ?t = "s0\<lparr>hw := h, change_done := of_nat (min k (Suc D))\<rparr>"
    have "get_light_level ?t = Some (lev k)"
      using level_at_tick [of ?t L1 L2 D k, OF _ _ _ _ d(2) l]
      by (simp add: f lev_def R_def)
    then show ?thesis using h by (simp add: ramp_level_def)
  qed
  have kd: "0 \<le> real k" "real k \<le> real D" "0 < real D" if "k < D" for k
    using that by simp_all
  have between: "of_int (min (sint L1) (sint L2)) \<le> R k" "R k \<le> of_int (max (sint L1) (sint L2))"
    if "k < D" for k
  proof -
    have "min ?l1 ?l2 \<le> R k" "R k \<le> max ?l1 ?l2"
      unfolding R_def using l by (intro ramp32_between [OF kd [OF that]]; simp)+
    then show "of_int (min (sint L1) (sint L2)) \<le> R k" "R k \<le> of_int (max (sint L1) (sint L2))"
      by (simp_all add: min_def max_def split: if_splits)
  qed
  have fl_between: "min (sint L1) (sint L2) \<le> \<lfloor>R k\<rfloor>" "\<lfloor>R k\<rfloor> \<le> max (sint L1) (sint L2)"
    if "k < D" for k
    using floor_in_range [OF between [OF that]] .
  have sint_lev: "sint (lev k) = \<lfloor>R k\<rfloor>" if "k < D" for k
  proof -
    have "- 32768 \<le> \<lfloor>R k\<rfloor>" "\<lfloor>R k\<rfloor> \<le> 32767" using fl_between [OF that] l by linarith+
    then show ?thesis using that by (simp add: lev_def sint16_in_range)
  qed
  have start: "lev 0 = L1"
  proof -
    have "R 0 = ?l1" unfolding R_def using ramp32_start [of "real D" "sint L1" ?l2] d(1) l by simp
    moreover have "word_of_int (sint L1) = L1" by (simp flip: scast_eq)
    ultimately show ?thesis using d(1) by (simp add: lev_def)
  qed
  have err: "real_of_int \<lfloor>R k\<rfloor> \<le> (?l2 - ?l1) * (real k / real D) + ?l1 + 1 / 4096"
    "(?l2 - ?l1) * (real k / real D) + ?l1 - 1 / 4096 < real_of_int \<lfloor>R k\<rfloor> + 1" if "k < D" for k
  proof -
    have e: "\<bar>R k - ((?l2 - ?l1) * (real k / real D) + ?l1)\<bar> \<le> 1 / 4096"
      unfolding R_def using ramp32_error [OF kd [OF that] l] .
    have "real_of_int \<lfloor>R k\<rfloor> \<le> R k" "R k < real_of_int \<lfloor>R k\<rfloor> + 1" by linarith+
    then show "real_of_int \<lfloor>R k\<rfloor> \<le> (?l2 - ?l1) * (real k / real D) + ?l1 + 1 / 4096"
      "(?l2 - ?l1) * (real k / real D) + ?l1 - 1 / 4096 < real_of_int \<lfloor>R k\<rfloor> + 1"
      using e by linarith+
  qed
  have mono: "(sint L1 \<le> sint L2 \<longrightarrow> sint (lev j) \<le> sint (lev k)) \<and>
              (sint L2 \<le> sint L1 \<longrightarrow> sint (lev k) \<le> sint (lev j))" if "j \<le> k" for j k
  proof (cases "k < D")
    case True
    then have j: "j < D" using that by simp
    have jk: "real j \<le> real k" using that by simp
    have "?l1 \<le> ?l2 \<Longrightarrow> R j \<le> R k" unfolding R_def
      using jk kd(3) [OF True] by (intro ramp32_mono_up)
    moreover have "?l2 \<le> ?l1 \<Longrightarrow> R k \<le> R j" unfolding R_def
      using jk kd(3) [OF True] by (intro ramp32_mono_down)
    ultimately show ?thesis by (simp add: sint_lev True j floor_mono)
  next
    case kD: False
    then have k: "lev k = L2" by (simp add: lev_def)
    show ?thesis
    proof (cases "j < D")
      case True
      have "sint L1 \<le> sint L2 \<Longrightarrow> \<lfloor>R j\<rfloor> \<le> sint L2" "sint L2 \<le> sint L1 \<Longrightarrow> sint L2 \<le> \<lfloor>R j\<rfloor>"
        using fl_between [OF True] by linarith+
      then show ?thesis using True by (simp add: k sint_lev)
    next
      case False
      then show ?thesis using kD by (simp add: lev_def)
    qed
  qed
  have 1: "ramp_level 0 s0 = Some L1" using level [of 0] start by simp
  have 2: "\<forall>k<D. \<exists>r. ramp_level k s0 = Some r \<and>
        sint r = \<lfloor>ramp32 ?l1 ?l2 (real k) (real D)\<rfloor> \<and>
        min (sint L1) (sint L2) \<le> sint r \<and> sint r \<le> max (sint L1) (sint L2) \<and>
        real_of_int (sint r) \<le> (?l2 - ?l1) * (real k / real D) + ?l1 + 1 / 4096 \<and>
        (?l2 - ?l1) * (real k / real D) + ?l1 - 1 / 4096 < real_of_int (sint r) + 1"
    using level fl_between err by (simp add: sint_lev R_def)
  have 3: "\<forall>k\<ge>D. ramp_level k s0 = Some L2" using level by (simp add: lev_def)
  have 4: "\<forall>j k rj rk. j \<le> k \<and> ramp_level j s0 = Some rj \<and> ramp_level k s0 = Some rk \<longrightarrow>
        (sint L1 \<le> sint L2 \<longrightarrow> sint rj \<le> sint rk) \<and>
        (sint L2 \<le> sint L1 \<longrightarrow> sint rk \<le> sint rj)"
    using mono by (auto simp add: level)
  show ?thesis using set 1 2 3 4 by blast
qed

lemma word_of_int_sint [simp]: "word_of_int (sint w) = (w :: 'a::len word)"
  by (simp flip: scast_eq)

lemma of_nat_nat_sint:
  "0 \<le> sint (w :: int16) \<Longrightarrow> of_nat (nat (sint w)) = w"
  by simp

lemma overheat_ramp_fields [simp]:
  "start_light_level (overheat_protection s) = start_light_level s"
  "end_light_level (overheat_protection s) = end_light_level s"
  "change_duration (overheat_protection s) = change_duration s"
  "hw (overheat_protection s) = hw s"
  by (simp_all add: overheat_protection_def Let_def)

lemma overheat_snaps:
  assumes "sint (safe_light_level (overheat_protection s)) < 1000"
  shows "change_done (overheat_protection s) = c_min (change_done s) (change_duration s)"
  using assms by (simp add: overheat_protection_def Let_def word_sless_alt split: if_splits)

text \<open>
  C2. When \<open>overheat_protection\<close> leaves the ceiling below 1000, it sets \<open>change_done\<close>
  to \<open>min(change_done, change_duration)\<close>, so \<open>change_done \<le> change_duration\<close> holds
  afterwards; and \<open>adjust_light\<close>, run on that state (as \<open>update\<close> does next), takes its
  writing branch: it writes the pins for the level \<open>get_safe_light_level\<close> returns, the
  smaller of the requested level and the ceiling, and counts the tick. The ramp's
  levels are in \<open>[0, 1000]\<close> and \<open>change_done\<close> is not negative.
\<close>

theorem overheat_forces_write:
  fixes s :: hexbright
  defines "s' \<equiv> overheat_protection s"
  assumes hot: "sint (safe_light_level s') < 1000"
    and l: "0 \<le> sint (start_light_level s)" "sint (start_light_level s) \<le> 1000"
      "0 \<le> sint (end_light_level s)" "sint (end_light_level s) \<le> 1000"
    and e: "0 \<le> sint (change_done s)"
  shows "change_done s' = c_min (change_done s) (change_duration s) \<and>
         sint (change_done s') = min (sint (change_done s)) (sint (change_duration s)) \<and>
         sint (change_done s') \<le> sint (change_duration s') \<and>
         (\<exists>r v w. get_light_level s' = Some r \<and>
            get_safe_light_level s' = Some v \<and>
            v = (if safe_light_level s' <s r then safe_light_level s' else r) \<and>
            light_writes (scast v) = Some w \<and>
            adjust_light s' = Some (s'\<lparr>hw := hw s' @ w, change_done := change_done s' + 1\<rparr>))"
proof -
  have snap: "change_done s' = c_min (change_done s) (change_duration s)"
    using hot unfolding s'_def by (rule overheat_snaps)
  have m: "sint (change_done s') = min (sint (change_done s)) (sint (change_duration s))"
    by (simp add: snap c_min_def word_sless_alt min_def)
  have le: "sint (change_done s') \<le> sint (change_duration s')"
    using m by (simp add: s'_def)
  have c: "0 \<le> sint (safe_light_level s')" "sint (safe_light_level s') \<le> 1000"
    using overheat_ceiling_range [of s] by (simp_all add: s'_def)
  obtain r where r: "get_light_level s' = Some r" "0 \<le> sint r" "sint r \<le> 1000"
  proof (cases "sint (change_done s') < sint (change_duration s')")
    case True
    define k D where "k = nat (sint (change_done s'))" and "D = nat (sint (change_duration s'))"
    have nn: "0 \<le> sint (change_done s')" "0 \<le> sint (change_duration s')"
      using True m e by (simp_all add: s'_def)
    have f: "change_duration s' = of_nat D" "change_done s' = of_nat k"
      using nn by (simp_all add: k_def D_def of_nat_nat_sint)
    have kD: "k < D" "D \<le> 32767"
      using True nn sint16_bounds [of "change_duration s'"] by (simp_all add: k_def D_def)
    let ?r = "ramp32 (of_int (sint (start_light_level s'))) (of_int (sint (end_light_level s')))
                (of_nat k) (of_nat D)"
    have l': "0 \<le> sint (start_light_level s')" "sint (start_light_level s') \<le> 1000"
      "0 \<le> sint (end_light_level s')" "sint (end_light_level s') \<le> 1000"
      using l by (simp_all add: s'_def)
    note g = get_light_level_ramp [OF refl refl f kD l']
    have kd: "0 \<le> real k" "real k \<le> real D" "0 < real D" using kD by simp_all
    have "min (real_of_int (sint (start_light_level s'))) (real_of_int (sint (end_light_level s'))) \<le> ?r"
        "?r \<le> max (real_of_int (sint (start_light_level s'))) (real_of_int (sint (end_light_level s')))"
      using l' by (intro ramp32_between [OF kd]; simp)+
    then have "of_int 0 \<le> ?r" "?r \<le> of_int 1000"
      using l' by (simp_all add: min_def max_def split: if_splits)
    then have "0 \<le> \<lfloor>?r\<rfloor>" "\<lfloor>?r\<rfloor> \<le> 1000" by (rule floor_in_range)+
    then show ?thesis using that [of "word_of_int \<lfloor>?r\<rfloor>"] g by simp
  next
    case False
    then have "change_duration s' \<le>s change_done s'" by (simp add: word_sle_eq)
    then have "get_light_level s' = Some (end_light_level s')" by (simp add: get_light_level_def)
    then show ?thesis using that [of "end_light_level s'"] l by (simp add: s'_def)
  qed
  define v where "v = (if safe_light_level s' <s r then safe_light_level s' else r)"
  have v: "get_safe_light_level s' = Some v" "0 \<le> sint v" "sint v \<le> 1000"
    using r c by (simp_all add: get_safe_light_level_def v_def)
  obtain w where w: "light_writes (scast v) = Some w"
    using light_writes_defined [OF scast_level [OF v(2,3)]] by auto
  have "change_done s' \<le>s change_duration s'" using le by (simp add: word_sle_eq)
  then have "adjust_light s' = Some (s'\<lparr>hw := hw s' @ w, change_done := change_done s' + 1\<rparr>)"
    by (simp add: adjust_light_def v(1) set_light_level_def w)
  then show ?thesis using snap m le r(1) v(1) w v_def by blast
qed

section \<open>The drive curve at the boundary of its segments\<close>

lemmas float_eval = lit_def u2f_def i2f_def fmul_def fadd_def fsub_def fdiv_def fl_def round32_def
  ulp_exp_def flog2.simps rne_def Let_def power_int_minus

lemma drive_low_500: "drive_low 500 = Some (16734945 / 65536)"
  by (simp add: drive_low_def float_eval)

lemma drive_high_1: "drive_high 1 = Some (5886229 / 131072)"
  by (simp add: drive_high_def float_eval)

lemma drive_at_boundary:
  "f2i (drive_low 500) = Some 255" "f2i (drive_high 1) = Some 44"
  by (simp_all add: drive_low_500 drive_high_1 f2i_def)

lemma light_writes_boundary:
  "light_writes 500 =
     Some [PinMode DPIN_PWR OUTPUT, DigitalWrite DPIN_PWR HIGH,
           DigitalWrite DPIN_DRV_MODE LOW, AnalogWrite DPIN_DRV_EN 255]"
  "light_writes 501 =
     Some [PinMode DPIN_PWR OUTPUT, DigitalWrite DPIN_PWR HIGH,
           DigitalWrite DPIN_DRV_MODE HIGH, AnalogWrite DPIN_DRV_EN 44]"
  using drive_at_boundary by (simp_all add: light_writes_def)

text \<open>
  C4, as amended. The pin writes of \<open>set_light_level level\<close> are \<open>light_writes level\<close>,
  whatever the state, and nothing but the log of writes changes: the drive value and the
  drive mode are a function of the level alone. At the boundary of the two segments the
  drive value is not continuous: level 500 gives the drive value 255 (255.355 before the
  conversion) in the low mode, level 501 gives 44 (44.908) in the high mode.
\<close>

theorem drive_curve_pure:
  "map_option (\<lambda>t. drop (length (hw s1)) (hw t)) (set_light_level level s1) = light_writes level \<and>
   map_option (\<lambda>t. drop (length (hw s2)) (hw t)) (set_light_level level s2) = light_writes level \<and>
   map_option (\<lambda>t. t\<lparr>hw := hw s1\<rparr>) (set_light_level level s1) =
     map_option (\<lambda>w. s1) (light_writes level) \<and>
   light_writes 500 =
     Some [PinMode DPIN_PWR OUTPUT, DigitalWrite DPIN_PWR HIGH,
           DigitalWrite DPIN_DRV_MODE LOW, AnalogWrite DPIN_DRV_EN 255] \<and>
   light_writes 501 =
     Some [PinMode DPIN_PWR OUTPUT, DigitalWrite DPIN_PWR HIGH,
           DigitalWrite DPIN_DRV_MODE HIGH, AnalogWrite DPIN_DRV_EN 44] \<and>
   drive_low 500 = Some (16734945 / 65536) \<and>
   drive_high (501 - 500) = Some (5886229 / 131072)"
  by (simp add: set_light_level_def light_writes_boundary drive_low_500 drive_high_1
      option.map_comp comp_def option.map_ident)

text \<open>The drive values on the two sides of the boundary differ by 211.\<close>

theorem drive_curve_jump_counterexample:
  "f2i (drive_low 500) = Some 255 \<and> f2i (drive_high (501 - 500)) = Some 44 \<and>
   \<not> \<bar>sint (255 :: int16) - sint (44 :: int16)\<bar> \<le> 200"
  by (simp add: drive_at_boundary)


theorem ramp_levels_witness:
  "\<exists>s0. set_light 0 1000 (of_nat 4 * ms_delay (init 10)) (init 10) = Some s0 \<and>
     ramp_level 0 s0 = Some 0 \<and> ramp_level 4 s0 = Some 1000 \<and> ramp_level 9 s0 = Some 1000 \<and>
     (\<exists>r. ramp_level 2 s0 = Some r \<and> 0 \<le> sint r \<and> sint r \<le> 1000 \<and>
        real_of_int (sint r) \<le> 500 + 1 / 4096 \<and> 500 - 1 / 4096 < real_of_int (sint r) + 1)"
proof -
  have h: "0 \<le> sint (0 :: int16)" "sint (0 :: int16) \<le> 1000"
    "0 \<le> sint (1000 :: int16)" "sint (1000 :: int16) \<le> 1000"
    "0 < (4 :: nat)" "(4 :: nat) < 32767" "0 < sint (ms_delay (init 10))"
    "int 4 * sint (ms_delay (init 10)) \<le> 32767"
    "0 \<le> sint (safe_light_level (init 10))" "sint (safe_light_level (init 10)) \<le> 1000"
    by (simp_all add: init_def)
  obtain s0 where s0: "set_light 0 1000 (of_nat 4 * ms_delay (init 10)) (init 10) = Some s0"
    and a: "ramp_level 0 s0 = Some 0"
    and b: "\<forall>k<4. \<exists>r. ramp_level k s0 = Some r \<and>
        sint r = \<lfloor>ramp32 (of_int (sint (0 :: int16))) (of_int (sint (1000 :: int16)))
                   (real k) (real 4)\<rfloor> \<and>
        min (sint (0 :: int16)) (sint (1000 :: int16)) \<le> sint r \<and>
        sint r \<le> max (sint (0 :: int16)) (sint (1000 :: int16)) \<and>
        real_of_int (sint r)
          \<le> (of_int (sint (1000 :: int16)) - of_int (sint (0 :: int16))) * (real k / real 4)
             + of_int (sint (0 :: int16)) + 1 / 4096 \<and>
        (of_int (sint (1000 :: int16)) - of_int (sint (0 :: int16))) * (real k / real 4)
             + of_int (sint (0 :: int16)) - 1 / 4096
          < real_of_int (sint r) + 1"
    and c: "\<forall>k\<ge>4. ramp_level k s0 = Some 1000"
    using ramp_levels [OF h] by blast
  obtain r where r: "ramp_level 2 s0 = Some r" "0 \<le> sint r" "sint r \<le> 1000"
      "real_of_int (sint r) \<le> 500 + 1 / 4096" "500 - 1 / 4096 < real_of_int (sint r) + 1"
    using b [rule_format, of 2] by auto
  have "ramp_level 4 s0 = Some 1000" "ramp_level 9 s0 = Some 1000" using c by simp_all
  then show ?thesis using s0 a r by blast
qed

lemma interpolation_1_of_41:
  "f2i (fadd (fmul (i2f (41 - 0 :: int16)) (fdiv (i2f (0 :: int16)) (i2f (41 :: int16))))
             (i2f (0 :: int16))) = Some 0"
  "f2i (fadd (fmul (i2f (41 - 0 :: int16)) (fdiv (i2f (1 :: int16)) (i2f (41 :: int16))))
             (i2f (0 :: int16))) = Some 0"
  by (simp_all add: float_eval f2i_def)

text \<open>A ramp from 0 to 41 over 41 ticks: after one tick the exact interpolation is 1,
  and \<open>get_light_level\<close> returns 0, since \<open>41 * (float) (1 / 41)\<close> is below 1 in single
  precision.\<close>

theorem ramp_not_exact_counterexample:
  "\<exists>s0. set_light 0 41 410 (init 10) = Some s0 \<and> change_duration s0 = 41 \<and>
     ramp_level 1 s0 = Some 0 \<and> ((41 - 0) * 1 / 41 + 0 :: real) = 1"
proof -
  have d: "c_div (410 :: int16) 10 = 41" by (simp add: c_div_def)
  define s0 where "s0 = (init 10)\<lparr>start_light_level := 0, end_light_level := 41,
     change_duration := 41, change_done := 0\<rparr>"
  have 1: "set_light 0 41 410 (init 10) = Some s0"
    by (simp add: set_light_def s0_def d) (simp add: init_def d)
  have g0: "get_light_level s0 = Some 0"
    using interpolation_1_of_41(1) by (simp add: get_light_level_def s0_def word_sle_eq)
  have w0: "light_writes (scast (0 :: int16)) =
     Some [PinMode DPIN_PWR OUTPUT, DigitalWrite DPIN_PWR HIGH,
           DigitalWrite DPIN_DRV_MODE LOW, AnalogWrite DPIN_DRV_EN 0]"
    by (simp add: light_writes_def)
  have 2: "adjust_light s0 = Some (s0\<lparr>hw := hw s0 @
       [PinMode DPIN_PWR OUTPUT, DigitalWrite DPIN_PWR HIGH,
        DigitalWrite DPIN_DRV_MODE LOW, AnalogWrite DPIN_DRV_EN 0], change_done := 1\<rparr>)"
    using g0 w0
    by (simp add: adjust_light_def get_safe_light_level_def set_light_level_def)
       (simp add: s0_def init_def word_sle_eq word_sless_alt)
  have g1: "get_light_level (s0\<lparr>hw := hw s0 @
       [PinMode DPIN_PWR OUTPUT, DigitalWrite DPIN_PWR HIGH,
        DigitalWrite DPIN_DRV_MODE LOW, AnalogWrite DPIN_DRV_EN 0], change_done := 1\<rparr>) = Some 0"
    using interpolation_1_of_41(2) by (simp add: get_light_level_def s0_def word_sle_eq)
  have 3: "ramp_level 1 s0 = Some 0"
    using 2 g1 by (simp add: ramp_level_def)
  have 4: "change_duration s0 = 41" by (simp add: s0_def)
  show ?thesis using 1 3 4 by simp
qed


lemma drive_low_300: "f2i (drive_low 300) = Some 86"
  by (simp add: drive_low_def float_eval f2i_def)

lemma half_ramp:
  "f2i (fadd (fmul (i2f (1000 - 0 :: int16)) (fdiv (i2f (2 :: int16)) (i2f (4 :: int16))))
             (i2f (0 :: int16))) = Some 500"
  by (simp add: float_eval f2i_def)

theorem overheat_forces_write_witness:
  "change_done (overheat_protection
      ((init 10)\<lparr>end_light_level := 1000, change_duration := 4, change_done := 2,
                  safe_light_level := 380, thermal_sensor_value := 400\<rparr>)) = 2 \<and>
   safe_light_level (overheat_protection
      ((init 10)\<lparr>end_light_level := 1000, change_duration := 4, change_done := 2,
                  safe_light_level := 380, thermal_sensor_value := 400\<rparr>)) = 300 \<and>
   adjust_light (overheat_protection
      ((init 10)\<lparr>end_light_level := 1000, change_duration := 4, change_done := 2,
                  safe_light_level := 380, thermal_sensor_value := 400\<rparr>)) =
   Some ((init 10)\<lparr>end_light_level := 1000, change_duration := 4, change_done := 3,
                  safe_light_level := 300, thermal_sensor_value := 400,
                  hw := [PinMode DPIN_PWR OUTPUT, DigitalWrite DPIN_PWR HIGH,
                         DigitalWrite DPIN_DRV_MODE LOW, AnalogWrite DPIN_DRV_EN 86]\<rparr>)"
proof -
  define S where "S = (init 10)\<lparr>end_light_level := 1000, change_duration := 4, change_done := 2,
                  safe_light_level := 380, thermal_sensor_value := 400\<rparr>"
  have o: "overheat_protection S = S\<lparr>safe_light_level := 300\<rparr>"
    by (simp add: overheat_protection_def get_thermal_sensor_def c_min_def S_def Let_def
        word_sless_alt)
  have h: "sint (safe_light_level (overheat_protection S)) < 1000"
    "0 \<le> sint (start_light_level S)" "sint (start_light_level S) \<le> 1000"
    "0 \<le> sint (end_light_level S)" "sint (end_light_level S) \<le> 1000"
    "0 \<le> sint (change_done S)"
    unfolding o by (simp_all add: S_def init_def)
  obtain r v w where t: "get_light_level (overheat_protection S) = Some r"
    "v = (if safe_light_level (overheat_protection S) <s r
          then safe_light_level (overheat_protection S) else r)"
    "light_writes (scast v) = Some w"
    "adjust_light (overheat_protection S) =
       Some ((overheat_protection S)\<lparr>hw := hw (overheat_protection S) @ w,
              change_done := change_done (overheat_protection S) + 1\<rparr>)"
    using overheat_forces_write [OF h] by blast
  have "get_light_level (overheat_protection S) = Some 500"
    unfolding o using half_ramp by (simp add: get_light_level_def S_def init_def word_sle_eq)
  then have r: "r = 500" using t(1) by simp
  have v: "v = 300" using t(2) unfolding o by (simp add: r word_sless_alt)
  have "light_writes (scast (300 :: int16)) =
     Some [PinMode DPIN_PWR OUTPUT, DigitalWrite DPIN_PWR HIGH,
           DigitalWrite DPIN_DRV_MODE LOW, AnalogWrite DPIN_DRV_EN 86]"
    using drive_low_300 by (simp add: light_writes_def)
  then have w: "w = [PinMode DPIN_PWR OUTPUT, DigitalWrite DPIN_PWR HIGH,
           DigitalWrite DPIN_DRV_MODE LOW, AnalogWrite DPIN_DRV_EN 86]"
    using t(3) by (simp add: v)
  show ?thesis
    using t(4) unfolding w S_def [symmetric] o by (simp add: S_def init_def)
qed

section \<open>The readings of the accelerometer\<close>

lemma fl_0 [simp]: "fl 0 = Some 0"
  by (simp add: fl_def)

lemma fmul_zero_right: "fmul m (Some 0) = (case m of None \<Rightarrow> None | Some x \<Rightarrow> Some 0)"
  by (cases m) (simp_all add: fmul_def)

lemma fmul_zero_left: "fmul (Some 0) m = (case m of None \<Rightarrow> None | Some x \<Rightarrow> Some 0)"
  by (cases m) (simp_all add: fmul_def)

lemma fdiv_zero_or_nan:
  "d = Some 0 \<or> d = None \<Longrightarrow> fdiv a d = None"
  by (cases a) (auto simp add: fdiv_def)

lemma fdiv_nan_left [simp]: "fdiv None d = None"
  by (simp add: fdiv_def)

text \<open>With a magnitude that is zero, the product of the magnitudes is zero or NaN, and
  the quotient by it is not a number.\<close>

lemma axis_rotation_nan:
  assumes "new_magnitude t = Some 0 \<or> old_magnitude t = Some 0"
  shows "axis_rotation t i = None"
proof -
  have "fmul (new_magnitude t) (old_magnitude t) = Some 0 \<or>
        fmul (new_magnitude t) (old_magnitude t) = None"
    using assms by (auto simp add: fmul_zero_right fmul_zero_left split: option.splits)
  then show ?thesis by (simp add: axis_rotation_def Let_def fdiv_zero_or_nan)
qed

lemma read_axis_magnitudes [simp]:
  "new_magnitude (snd (read_axis i p)) = new_magnitude (snd p)"
  "old_magnitude (snd (read_axis i p)) = old_magnitude (snd p)"
  by (auto simp add: read_axis_def Let_def split: prod.splits list.splits)

lemma read_axes_magnitudes [simp]:
  "new_magnitude (read_axes rx s) = new_magnitude s"
  "old_magnitude (read_axes rx s) = old_magnitude s"
  by (simp_all add: read_axes_def)

lemma accelerometer_steps [simp]:
  "new_magnitude (swap_vectors s) = new_magnitude s"
  "old_magnitude (update_magnitudes s) = new_magnitude s"
  "new_magnitude (update_angle s) = new_magnitude s"
  "old_magnitude (update_angle s) = old_magnitude s"
  "new_magnitude (update_rotation s) = new_magnitude s"
  "old_magnitude (update_rotation s) = old_magnitude s"
  "axes_rotation (update_rotation s) = map (axis_rotation s) [0, 1, 2]"
  "new_magnitude (angle_to_degrees s) = new_magnitude s"
  "old_magnitude (angle_to_degrees s) = old_magnitude s"
  "axes_rotation (angle_to_degrees s) = axes_rotation s"
  "new_magnitude (update_down s) = new_magnitude s"
  "old_magnitude (update_down s) = old_magnitude s"
  "axes_rotation (update_down s) = axes_rotation s"
  by (simp_all add: swap_vectors_def update_magnitudes_def update_angle_def update_rotation_def
      angle_to_degrees_def update_down_def Let_def)

lemma read_accelerometer_rotation:
  "\<exists>t. axes_rotation (read_accelerometer_vector rx s) = map (axis_rotation t) [0, 1, 2] \<and>
       old_magnitude t = new_magnitude s \<and>
       new_magnitude t = new_magnitude (read_accelerometer_vector rx s)"
proof -
  let ?t = "update_angle (update_magnitudes (read_axes rx (swap_vectors s)))"
  have "axes_rotation (read_accelerometer_vector rx s) = map (axis_rotation ?t) [0, 1, 2]"
    "old_magnitude ?t = new_magnitude s"
    "new_magnitude ?t = new_magnitude (read_accelerometer_vector rx s)"
    by (simp_all add: read_accelerometer_vector_def)
  then show ?thesis by blast
qed

lemma rotation_nan:
  assumes "new_magnitude s = Some 0 \<or> new_magnitude (read_accelerometer_vector rx s) = Some 0"
  shows "axes_rotation (read_accelerometer_vector rx s) = [None, None, None]"
proof -
  obtain t where t: "axes_rotation (read_accelerometer_vector rx s) = map (axis_rotation t) [0, 1, 2]"
    "old_magnitude t = new_magnitude s"
    "new_magnitude t = new_magnitude (read_accelerometer_vector rx s)"
    using read_accelerometer_rotation by blast
  have "axis_rotation t i = None" for i
    using assms by (intro axis_rotation_nan) (auto simp add: t(2,3))
  then show ?thesis by (simp add: t(1))
qed

text \<open>What the steps after the reading leave alone: the rotations are a function of
  the state the call returns.\<close>

lemma accelerometer_frame [simp]:
  "vectors (update_angle s) = vectors s"
  "new_vector (update_angle s) = new_vector s"
  "old_vector (update_angle s) = old_vector s"
  "dp (update_angle s) = dot_product (vec s (old_vector s)) (vec s (new_vector s))"
  "angle_change (update_angle s) =
     angle_difference (dot_product (vec s (old_vector s)) (vec s (new_vector s)))
       (new_magnitude s) (old_magnitude s)"
  "vectors (update_rotation s) = vectors s"
  "new_vector (update_rotation s) = new_vector s"
  "old_vector (update_rotation s) = old_vector s"
  "dp (update_rotation s) = dp s"
  "vectors (angle_to_degrees s) = vectors s"
  "new_vector (angle_to_degrees s) = new_vector s"
  "old_vector (angle_to_degrees s) = old_vector s"
  "dp (angle_to_degrees s) = dp s"
  "vectors (update_down s) = vectors s"
  "new_vector (update_down s) = new_vector s"
  "old_vector (update_down s) = old_vector s"
  "dp (update_down s) = dp s"
  by (simp_all add: update_angle_def update_rotation_def angle_to_degrees_def update_down_def
      Let_def)

lemma rotation_formula:
  "axes_rotation (read_accelerometer_vector rx s) =
     (let r = read_accelerometer_vector rx s;
          nv = vec r (new_vector r); ov = vec r (old_vector r)
      in map (\<lambda>i. fdiv (fdiv (fsub (fmul (nv ! ((i + 1) mod 3)) (ov ! ((i + 2) mod 3)))
                                   (fmul (nv ! ((i + 2) mod 3)) (ov ! ((i + 1) mod 3))))
                             (fmul (new_magnitude r) (old_magnitude r)))
                       (f_asin (angle_difference (dp r) (new_magnitude r) (old_magnitude r))))
             [0, 1, 2])"
proof -
  define t where "t = update_magnitudes (read_axes rx (swap_vectors s))"
  define r where "r = read_accelerometer_vector rx s"
  have r: "r = update_down (angle_to_degrees (update_rotation (update_angle t)))"
    by (simp add: r_def t_def read_accelerometer_vector_def)
  have f: "vectors r = vectors t" "new_vector r = new_vector t" "old_vector r = old_vector t"
    "new_magnitude r = new_magnitude t" "old_magnitude r = old_magnitude t"
    "dp r = dot_product (vec t (old_vector t)) (vec t (new_vector t))"
    by (simp_all add: r)
  have v: "vec r p = vec t p" "vec (update_angle t) p = vec t p" for p
    by (simp_all add: vec_def f)
  have "axes_rotation r = map (axis_rotation (update_angle t)) [0, 1, 2]"
    by (simp add: r)
  then show ?thesis
    unfolding r_def [symmetric] Let_def
    by (simp add: axis_rotation_def Let_def f v)
qed

text \<open>
  C9, as amended. In \<open>read_accelerometer_vector\<close> each per-axis rotation is the
  cross-product-like difference of the two stored vectors, divided by
  \<open>new_magnitude * old_magnitude\<close> and then by the term of the angle, the angle that
  \<open>angle_difference\<close> gives for the stored dot product and magnitudes. No division is
  guarded: whenever one of the two magnitudes is zero -- the magnitude stored before the
  call, which becomes \<open>old_magnitude\<close>, as on the first sample after start-up, or the
  magnitude of the new sample -- all three rotations stored are NaN (\<open>None\<close>), not zero.
\<close>

theorem rotation_unguarded:
  "(let r = read_accelerometer_vector rx s;
        nv = vec r (new_vector r); ov = vec r (old_vector r)
    in axes_rotation r =
         map (\<lambda>i. fdiv (fdiv (fsub (fmul (nv ! ((i + 1) mod 3)) (ov ! ((i + 2) mod 3)))
                                  (fmul (nv ! ((i + 2) mod 3)) (ov ! ((i + 1) mod 3))))
                            (fmul (new_magnitude r) (old_magnitude r)))
                      (f_asin (angle_difference (dp r) (new_magnitude r) (old_magnitude r))))
             [0, 1, 2] \<and>
       old_magnitude r = new_magnitude s \<and>
       (new_magnitude s = Some 0 \<or> new_magnitude r = Some 0 \<longrightarrow>
          axes_rotation r = [None, None, None]))"
proof -
  have "old_magnitude (read_accelerometer_vector rx s) = new_magnitude s"
    by (simp add: read_accelerometer_vector_def)
  then show ?thesis
    using rotation_formula [of rx s] rotation_nan [of s rx] unfolding Let_def by blast
qed

theorem rotation_unguarded_witness:
  "new_magnitude (init 10) = Some 0 \<and>
   axes_rotation (read_accelerometer_vector [0, 0, 21] (init 10)) = [None, None, None]"
proof -
  have "new_magnitude (init 10) = Some 0" by (simp add: init_def)
  then show ?thesis
    using rotation_unguarded [of "[0, 0, 21]" "init 10", unfolded Let_def,
        THEN conjunct2, THEN conjunct2]
    by simp
qed

text \<open>The first sample after start-up, the device at rest with 1 g on the z axis: the
  rotations stored are NaN, where a guard would have stored zeros.\<close>

theorem rotation_not_zero_counterexample:
  "axes_rotation (read_accelerometer_vector [0, 0, 21] (init 10)) = [None, None, None] \<and>
   axes_rotation (read_accelerometer_vector [0, 0, 21] (init 10)) \<noteq> [Some 0, Some 0, Some 0]"
proof -
  have "new_magnitude (init 10) = Some 0" by (simp add: init_def)
  then have "axes_rotation (read_accelerometer_vector [0, 0, 21] (init 10)) = [None, None, None]"
    by (intro rotation_nan) simp
  then show ?thesis by simp
qed

text \<open>
  C10. \<open>jab_detect\<close> does not use its argument: the result is the same for any two
  sensitivities. It is the same in any two states that agree on the two stored vectors
  and the two magnitudes. It is \<open>new_vector[1] - 20\<close> when the magnitudes differ by more
  than 0.4 and the dot products of both normalized vectors with the light axis exceed 0.8
  in magnitude, and 0 otherwise.
\<close>

theorem jab_detect_ignores_sensitivity:
  "jab_detect a s = jab_detect b s \<and>
   (vec s (new_vector s) = vec t (new_vector t) \<and> vec s (old_vector s) = vec t (old_vector t) \<and>
    new_magnitude s = new_magnitude t \<and> old_magnitude s = old_magnitude t \<longrightarrow>
      jab_detect a s = jab_detect b t) \<and>
   jab_detect a s =
     (if fgt (c_abs (fsub (old_magnitude s) (new_magnitude s))) (lit (4 / 10)) \<and>
         fgt (c_abs (dot_product (normalize (vec s (new_vector s)) (new_magnitude s)) light_axis))
             (lit (8 / 10)) \<and>
         fgt (c_abs (dot_product (normalize (vec s (old_vector s)) (old_magnitude s)) light_axis))
             (lit (8 / 10))
      then fsub (vec s (new_vector s) ! 1) (Some 20)
      else Some 0)"
  by (simp add: jab_detect_def Let_def)

lemma lit_08: "lit (8 / 10) = Some (13421773 / 16777216)"
  by (simp add: float_eval)

lemma lit_04: "lit (4 / 10) = Some (13421773 / 33554432)"
  by (simp add: float_eval)

lemma jab_quotients:
  "fdiv (Some (- (3 / 2))) (Some (3 / 2)) = Some (- 1)"
  "fdiv (Some 0) (Some (3 / 2)) = Some 0"
  "fdiv (Some (- 1)) (Some 1) = Some (- 1)"
  "fdiv (Some 0) (Some 1) = Some 0"
  by (simp_all add: float_eval)

lemma jab_products:
  "fmul (Some (- 1)) (Some (- 1)) = Some 1"
  "fmul (Some 0) (Some 0) = Some 0"
  "fadd (Some 0) (Some 0) = Some 0"
  "fadd (Some 0) (Some 1) = Some 1"
  "fadd (Some 1) (Some 0) = Some 1"
  by (simp_all add: float_eval)

lemma jab_differences:
  "fsub (Some 1) (Some (3 / 2)) = Some (- (1 / 2))"
  "fsub (Some (- (3 / 2))) (Some 20) = Some (- (43 / 2))"
  by (simp_all add: float_eval)

lemma jab_normalized:
  "normalize [Some 0, Some (- (3 / 2)), Some 0] (Some (3 / 2)) = [Some 0, Some (- 1), Some 0]"
  "normalize [Some 0, Some (- 1), Some 0] (Some 1) = [Some 0, Some (- 1), Some 0]"
  by (simp_all add: normalize_def jab_quotients)

lemma jab_along_axis: "dot_product [Some 0, Some (- 1), Some 0] light_axis = Some 1"
  by (simp add: dot_product_def light_axis_def jab_products)

theorem jab_detect_ignores_sensitivity_witness:
  "jab_detect (Some 1) ((init 10)\<lparr>vectors := [Some 0, Some (- (3 / 2)), Some 0, Some 0, Some (- 1), Some 0],
       new_magnitude := Some (3 / 2), old_magnitude := Some 1\<rparr>) = Some (- (43 / 2)) \<and>
   jab_detect (Some 5) ((init 10)\<lparr>vectors := [Some 0, Some (- (3 / 2)), Some 0, Some 0, Some (- 1), Some 0],
       new_magnitude := Some (3 / 2), old_magnitude := Some 1, hw := [PinMode 8 1]\<rparr>) = Some (- (43 / 2))"
proof -
  define S where "S = (init 10)\<lparr>vectors := [Some 0, Some (- (3 / 2)), Some 0, Some 0, Some (- 1), Some 0],
       new_magnitude := Some (3 / 2), old_magnitude := Some 1\<rparr>"
  define T where "T = S\<lparr>hw := [PinMode 8 1]\<rparr>"
  have v: "vec S (new_vector S) = [Some 0, Some (- (3 / 2)), Some 0]"
    "vec S (old_vector S) = [Some 0, Some (- 1), Some 0]"
    "new_magnitude S = Some (3 / 2)" "old_magnitude S = Some 1"
    by (simp_all add: S_def vec_def init_def)
  have w: "vec S (new_vector S) = vec T (new_vector T)" "vec S (old_vector S) = vec T (old_vector T)"
    "new_magnitude S = new_magnitude T" "old_magnitude S = old_magnitude T"
    by (simp_all add: T_def vec_def)
  note t = jab_detect_ignores_sensitivity [of "Some 1" S "Some 5" T]
  have c: "fgt (c_abs (Some (- (1 / 2)))) (Some (13421773 / 33554432))"
    "fgt (c_abs (Some 1)) (Some (13421773 / 16777216))"
    by (simp_all add: c_abs_def fgt_def fneg_def)
  have "jab_detect (Some 1) S =
     (if fgt (c_abs (fsub (old_magnitude S) (new_magnitude S))) (lit (4 / 10)) \<and>
         fgt (c_abs (dot_product (normalize (vec S (new_vector S)) (new_magnitude S)) light_axis))
             (lit (8 / 10)) \<and>
         fgt (c_abs (dot_product (normalize (vec S (old_vector S)) (old_magnitude S)) light_axis))
             (lit (8 / 10))
      then fsub (vec S (new_vector S) ! 1) (Some 20)
      else Some 0)"
    using t by (rule conjunct2 [THEN conjunct2])
  then have 1: "jab_detect (Some 1) S = Some (- (43 / 2))"
    unfolding v jab_normalized jab_along_axis jab_differences lit_04 lit_08
    using c by (simp add: jab_differences)
  have "jab_detect (Some 1) S = jab_detect (Some 5) T"
    using t [THEN conjunct2, THEN conjunct1] w by (simp only: simp_thms)
  then have 2: "jab_detect (Some 5) T = Some (- (43 / 2))"
    using 1 by simp
  show ?thesis using 1 2 unfolding T_def S_def by simp
qed

end
